theory Spec2Isabelle
  imports Main "HOL-Library.Word"
begin

unbundle bit_operations_syntax

section \<open>Machine values, outcomes and output\<close>

text \<open>
  The two programs, \<^verbatim>\<open>fill_ssbo_coherent.cpp\<close> and \<^verbatim>\<open>map_and_draw_coherent.cpp\<close>, are
  sequences of calls into GLFW and OpenGL. The model keeps the C values as they are:
  \<^verbatim>\<open>int\<close>, \<^verbatim>\<open>uint32_t\<close>, \<^verbatim>\<open>uint\<close>, \<^verbatim>\<open>GLuint\<close> and \<^verbatim>\<open>GLenum\<close> are 32-bit words
  (\<open>sint\<close> reads an \<^verbatim>\<open>int\<close>, \<open>unat\<close> an unsigned value; a comparison of an \<^verbatim>\<open>int\<close> with an
  unsigned value is the unsigned comparison of the words, as the usual arithmetic
  conversions make it). Buffer memory is bytes.

  A run ends by returning from \<^verbatim>\<open>main\<close>, by a call of \<^verbatim>\<open>exit\<close>, or by a fault: an
  operation whose behaviour C leaves undefined (a division by zero, a read or write outside
  the mapped range, the overflow of a signed counter) or a failed \<^verbatim>\<open>assert\<close>.
\<close>

type_synonym byte = "8 word"
type_synonym uint32 = "32 word"
type_synonym int32 = "32 word"

datatype fault = Division_by_zero | Out_of_bounds | Signed_overflow | Assertion_failed

datatype 'a outcome = Return 'a | Exit int | Fault fault

text \<open>A call of \<^verbatim>\<open>printf\<close> is recorded as its format string and its arguments.\<close>

datatype arg = Arg_int int | Arg_uint nat | Arg_str string

datatype event = Printf string "arg list"

text \<open>
  \<^verbatim>\<open>EXIT_FAILURE\<close> is the value of \<^verbatim>\<open>stdlib.h\<close>; the error codes are those of the OpenGL
  headers. \<^verbatim>\<open>EXIT_SKIP\<close> is not defined in the two source files (the build supplies it): it
  is a parameter of the environment below.
\<close>

definition EXIT_FAILURE :: int where
  "EXIT_FAILURE = 1"

definition GL_NO_ERROR :: uint32 where
  "GL_NO_ERROR = 0"

definition GL_OUT_OF_MEMORY :: uint32 where
  "GL_OUT_OF_MEMORY = 0x0505"

definition INT_MAX :: int32 where
  "INT_MAX = 0x7fffffff"

section \<open>The environment: build, operating system, window system and GL driver\<close>

text \<open>
  Everything the programs ask of the outside is a field of the environment, named after
  the call that asks: whether \<^verbatim>\<open>glfwCreateWindow\<close> returned a window, what the k-th call
  of \<^verbatim>\<open>glGetError\<close> returns, what the shader compiler and linker report.
\<close>

record env =
  EXIT_SKIP :: int
  getSystemPageSize :: nat
  glfwCreateWindow :: bool
  gladLoadGLLoader :: bool
  GLAD_GL_VERSION_4_4 :: int32
  glfwExtensionSupported :: "string \<Rightarrow> bool"
  glGetError :: "nat \<Rightarrow> uint32"
  glCreateProgram :: uint32
  GL_COMPILE_STATUS :: "nat \<Rightarrow> bool"
  GL_LINK_STATUS :: bool
  infoLog :: string

record world =
  stdout :: "event list"
  stderr :: "event list"
  glGetError_calls :: nat
  prog :: uint32

type_synonym ('w, 'a) program = "'w \<Rightarrow> 'a outcome \<times> 'w"

definition ret :: "'a \<Rightarrow> ('w, 'a) program" where
  "ret x w = (Return x, w)"

definition bind :: "('w, 'a) program \<Rightarrow> ('a \<Rightarrow> ('w, 'b) program) \<Rightarrow> ('w, 'b) program" where
  "bind m f w =
     (case m w of
        (Return x, w') \<Rightarrow> f x w'
      | (Exit code, w') \<Rightarrow> (Exit code, w')
      | (Fault e, w') \<Rightarrow> (Fault e, w'))"

definition printf :: "string \<Rightarrow> arg list \<Rightarrow> ('w world_scheme, unit) program" where
  "printf fmt args w = (Return (), w\<lparr>stdout := stdout w @ [Printf fmt args]\<rparr>)"

definition fprintf_stderr :: "string \<Rightarrow> arg list \<Rightarrow> ('w world_scheme, unit) program" where
  "fprintf_stderr fmt args w = (Return (), w\<lparr>stderr := stderr w @ [Printf fmt args]\<rparr>)"

definition exit :: "int \<Rightarrow> ('w, 'a) program" where
  "exit code w = (Exit code, w)"

section \<open>fill_ssbo_coherent\<close>

subsection \<open>Test cases and constants\<close>

record test_case =
  stride :: uint32
  offset :: uint32

definition values_count :: int32 where
  "values_count = 45000"

definition fill_value_a :: int32 where
  "fill_value_a = 0x55555555"

definition fill_value_b :: int32 where
  "fill_value_b = 0xD7D7D7D7"

text \<open>
  \<^verbatim>\<open>const uint32_t page_size = getSystemPageSize()\<close> truncates the \<^verbatim>\<open>size_t\<close> to 32 bits;
  the arithmetic on it is that of \<^verbatim>\<open>uint32_t\<close>. The result is the array
  \<^verbatim>\<open>test_cases[7]\<close>.
\<close>

definition init_test_cases :: "'e env_scheme \<Rightarrow> test_case list" where
  "init_test_cases env =
     (let page_size = (of_nat (getSystemPageSize env) :: uint32) in
      [\<lparr>stride = 2, offset = 0\<rparr>,
       \<lparr>stride = page_size, offset = page_size\<rparr>,
       \<lparr>stride = page_size, offset = page_size - 4\<rparr>,
       \<lparr>stride = page_size, offset = page_size + 4\<rparr>,
       \<lparr>stride = page_size, offset = page_size * 2\<rparr>,
       \<lparr>stride = page_size, offset = page_size * 2 + 4\<rparr>,
       \<lparr>stride = page_size, offset = page_size * 2 - 4\<rparr>])"

subsection \<open>Error and extension checks\<close>

definition check_error :: "'e env_scheme \<Rightarrow> ('w world_scheme, unit) program" where
  "check_error env w =
     (let error = glGetError env (glGetError_calls w);
          w' = w\<lparr>glGetError_calls := Suc (glGetError_calls w)\<rparr>
      in if error = GL_NO_ERROR then ret () w'
         else if error = GL_OUT_OF_MEMORY then exit (EXIT_SKIP env) w'
         else exit EXIT_FAILURE w')"

text \<open>
  The source asks \<^verbatim>\<open>glfwExtensionSupported("extension")\<close>: the quoted word, not the
  parameter. \<^verbatim>\<open>glfwTerminate\<close> has no effect the model keeps.
\<close>

definition require_extension :: "'e env_scheme \<Rightarrow> string \<Rightarrow> int32 \<Rightarrow> ('w world_scheme, unit) program" where
  "require_extension env extension gl_version =
     (if gl_version = 0 \<and> \<not> glfwExtensionSupported env ''extension'' then
        bind (fprintf_stderr ''error: %s not supported\<newline>'' [Arg_str extension])
          (\<lambda>_. exit (EXIT_SKIP env))
      else ret ())"

subsection \<open>Shader program\<close>

text \<open>
  \<^verbatim>\<open>build_programm\<close> compiles the compute shader and links the program; a failure is
  printed and the run goes on. \<^verbatim>\<open>assert(prog)\<close> stops the run when no program object was
  created.
\<close>

definition build_programm :: "'e env_scheme \<Rightarrow> ('w world_scheme, unit) program" where
  "build_programm env =
     bind (\<lambda>w. ret () (w\<lparr>prog := glCreateProgram env\<rparr>)) (\<lambda>_.
     bind (if \<not> GL_COMPILE_STATUS env 0
           then printf ''ERROR::SHADER::VERTEX::COMPILATION_FAILED %s\<newline>'' [Arg_str (infoLog env)]
           else ret ()) (\<lambda>_.
     bind (if \<not> GL_LINK_STATUS env
           then printf ''ERROR::SHADER::PROGRAM::LINKING_FAILED %s\<newline>'' [Arg_str (infoLog env)]
           else ret ()) (\<lambda>_.
     (\<lambda>w. if prog w = 0 then (Fault Assertion_failed, w) else ret () w))))"

subsection \<open>Buffer memory\<close>

text \<open>
  A buffer object's data store is a function from byte addresses to bytes, with its size
  beside it. \<^verbatim>\<open>memset\<close> converts its \<^verbatim>\<open>int\<close> argument to \<^verbatim>\<open>unsigned char\<close>. An
  \<^verbatim>\<open>int\<close> in memory is four bytes, least significant first.
\<close>

definition memset :: "(nat \<Rightarrow> byte) \<Rightarrow> nat \<Rightarrow> int32 \<Rightarrow> nat \<Rightarrow> (nat \<Rightarrow> byte)" where
  "memset mem p c n = (\<lambda>a. if p \<le> a \<and> a < p + n then ucast c else mem a)"

definition load_int :: "(nat \<Rightarrow> byte) \<Rightarrow> nat \<Rightarrow> int32" where
  "load_int mem a =
     ucast (mem a) OR push_bit 8 (ucast (mem (a + 1))) OR
     push_bit 16 (ucast (mem (a + 2))) OR push_bit 24 (ucast (mem (a + 3)))"

definition store_int :: "(nat \<Rightarrow> byte) \<Rightarrow> nat \<Rightarrow> int32 \<Rightarrow> (nat \<Rightarrow> byte)" where
  "store_int mem a v =
     mem(a := ucast v, a + 1 := ucast (drop_bit 8 v),
         a + 2 := ucast (drop_bit 16 v), a + 3 := ucast (drop_bit 24 v))"

record uniforms =
  u_stride :: uint32
  u_start_bound :: uint32
  u_end_bound :: uint32
  u_value :: int32

record fill_world = world +
  buffer_names :: nat
  buffer_size :: "nat \<Rightarrow> nat"
  storage :: "nat \<Rightarrow> nat \<Rightarrow> byte"
  ssbo_binding :: nat
  uniform :: uniforms

text \<open>
  What a dispatch of the compute program does is the driver's: the field takes the number
  of work groups, the buffer bound to binding 0, the uniforms and the data stores, and
  gives the data stores the CPU sees once the fence has been waited for.
\<close>

record fill_env = env +
  glDispatchCompute :: "nat \<Rightarrow> nat \<Rightarrow> uniforms \<Rightarrow> (nat \<Rightarrow> nat \<Rightarrow> byte) \<Rightarrow> (nat \<Rightarrow> nat \<Rightarrow> byte)"

text \<open>
  A pointer returned by \<^verbatim>\<open>glMapBufferRange\<close> is the buffer, the offset of the mapped
  range and its length; the mapping is coherent, so a read through the pointer reads the
  buffer's data store as it is then. A mapping that fails (no bytes asked for, or a range
  that leaves the buffer) returns NULL, modelled as a mapping of length 0: every access
  through it is out of bounds. \<^verbatim>\<open>glUnmapBuffer\<close> has no effect the model keeps.
\<close>

record mapping =
  buf :: nat
  map_offset :: nat
  map_length :: nat

definition glMapBufferRange :: "fill_world \<Rightarrow> nat \<Rightarrow> nat \<Rightarrow> mapping" where
  "glMapBufferRange w off len =
     (if len \<noteq> 0 \<and> off + len \<le> buffer_size w (ssbo_binding w)
      then \<lparr>buf = ssbo_binding w, map_offset = off, map_length = len\<rparr>
      else \<lparr>buf = ssbo_binding w, map_offset = off, map_length = 0\<rparr>)"

definition memset_mapped :: "mapping \<Rightarrow> int32 \<Rightarrow> nat \<Rightarrow> (fill_world, unit) program" where
  "memset_mapped m c n w =
     (if n \<le> map_length m
      then ret () (w\<lparr>storage := (storage w)(buf m := memset (storage w (buf m)) (map_offset m) c n)\<rparr>)
      else (Fault Out_of_bounds, w))"

text \<open>\<^verbatim>\<open>data[i]\<close> for a mapped \<^verbatim>\<open>int* data\<close>: \<open>None\<close> outside the mapped range.\<close>

definition deref :: "fill_world \<Rightarrow> mapping \<Rightarrow> int \<Rightarrow> int32 option" where
  "deref w m i =
     (if 0 \<le> i \<and> 4 * nat i + 4 \<le> map_length m
      then Some (load_int (storage w (buf m)) (map_offset m + 4 * nat i))
      else None)"

definition init_ssbo :: "'e env_scheme \<Rightarrow> (fill_world, nat) program" where
  "init_ssbo env w =
     (let data = Suc (buffer_names w);
          w1 = w\<lparr>buffer_names := data, ssbo_binding := data\<rparr>;
          w2 = w1\<lparr>buffer_size := (buffer_size w1)(data := unat (values_count * 4))\<rparr>;
          coherent_memory = glMapBufferRange w2 0 (unat (values_count * 4))
      in bind (memset_mapped coherent_memory fill_value_a (unat (values_count * 4))) (\<lambda>_.
         bind (check_error env) (\<lambda>_.
         ret data)) w2)"

definition fence :: "(fill_world, unit) program" where
  "fence = ret ()"

definition map_ssbo :: "nat \<Rightarrow> uint32 \<Rightarrow> (fill_world, mapping) program" where
  "map_ssbo ssbo offset' w =
     (let w1 = w\<lparr>ssbo_binding := ssbo\<rparr>;
          coherent_memory = glMapBufferRange w1 (unat offset') (unat (values_count * 4 - offset'))
      in bind (memset_mapped coherent_memory fill_value_b (unat (values_count * 4 - offset'))) (\<lambda>_.
         ret coherent_memory) w1)"

subsection \<open>Probes\<close>

text \<open>
  The loops of the probes are all \<^verbatim>\<open>for (int i = start; i < bound; i++)\<close> with an
  unsigned \<open>bound\<close>, so the comparison is unsigned, and a body that may return. The body
  gives \<open>Some r\<close> when it returns \<open>r\<close> from the function. Incrementing \<^verbatim>\<open>INT_MAX\<close> is
  undefined.
\<close>

function for_loop :: "(int32 \<Rightarrow> fault + 'r option) \<Rightarrow> uint32 \<Rightarrow> int32 \<Rightarrow> fault + 'r option" where
  "for_loop body bound i =
     (if i < bound then
        (case body i of
           Inl f \<Rightarrow> Inl f
         | Inr (Some r) \<Rightarrow> Inr (Some r)
         | Inr None \<Rightarrow> if i = INT_MAX then Inl Signed_overflow
                       else for_loop body bound (i + 1))
      else Inr None)"
  by pat_completeness auto
termination
proof (relation "measure (\<lambda>(body, bound, i). unat bound - unat i)")
  show "wf (measure (\<lambda>(body :: int32 \<Rightarrow> fault + 'r option, bound :: uint32, i :: int32). unat bound - unat i))"
    by simp
next
  fix body :: "int32 \<Rightarrow> fault + 'r option" and bound i :: "32 word"
  assume "i < bound"
  then have lt: "unat i < unat bound"
    by (simp add: word_less_nat_alt)
  moreover have "unat bound < 2 ^ 32"
    using unsigned_less [of bound, where ?'a = nat] by simp
  ultimately have "unat i + 1 < 2 ^ 32"
    by simp
  then have "unat (i + 1) = unat i + 1"
    by (simp add: unat_word_ariths)
  with lt show "((body, bound, i + 1), (body, bound, i)) \<in> measure (\<lambda>(body, bound, i). unat bound - unat i)"
    by simp
qed

declare for_loop.simps [simp del]

definition read :: "(int \<Rightarrow> int32 option) \<Rightarrow> int32 \<Rightarrow> (int32 \<Rightarrow> fault + 'r option) \<Rightarrow> fault + 'r option" where
  "read data i k = (case data (sint i) of None \<Rightarrow> Inl Out_of_bounds | Some d \<Rightarrow> k d)"

definition mismatch :: "string \<Rightarrow> int32 \<Rightarrow> int32 \<Rightarrow> bool \<times> event list" where
  "mismatch fmt i d = (False, [Printf fmt [Arg_int (sint i), Arg_int (sint d)]])"

definition finish :: "fault + (bool \<times> event list) option \<Rightarrow> (fault + bool \<times> event list) \<Rightarrow> fault + bool \<times> event list" where
  "finish r rest = (case r of Inl f \<Rightarrow> Inl f | Inr (Some x) \<Rightarrow> Inr x | Inr None \<Rightarrow> rest)"

definition probe_value_in_range ::
    "(int \<Rightarrow> int32 option) \<Rightarrow> test_case \<Rightarrow> uint32 \<Rightarrow> uint32 \<Rightarrow> int32 \<Rightarrow> fault + bool \<times> event list" where
  "probe_value_in_range data one start_bound end_bound value =
     finish
       (for_loop
          (\<lambda>i. let shifted_index = i + offset one div 4 in
                if stride one = 0 then Inl Division_by_zero
                else if shifted_index mod stride one \<noteq> 0
                then read data i (\<lambda>d.
                       if d \<noteq> fill_value_b
                       then Inr (Some (mismatch ''Probe mismatch in probe_value_in_range data[%i]: %i\<newline>'' i d))
                       else Inr None)
                else Inr None)
          (values_count - offset one div 4) 0)
       (finish
          (for_loop
             (\<lambda>i. let shifted_index = i + offset one div 4 in
                   if stride one = 0 then Inl Division_by_zero
                   else if shifted_index mod stride one = 0
                   then read data i (\<lambda>d.
                          if d \<noteq> value
                          then Inr (Some (mismatch ''Probe mismatch in probe_value_in_range data[%i]: %i\<newline>'' i d))
                          else Inr None)
                   else Inr None)
             (end_bound - offset one div 4) (start_bound - offset one div 4))
          (Inr (True, [])))"

definition probe_inital_state :: "(int \<Rightarrow> int32 option) \<Rightarrow> test_case \<Rightarrow> fault + bool \<times> event list" where
  "probe_inital_state data one =
     finish
       (for_loop
          (\<lambda>i. read data i (\<lambda>d.
                  if d \<noteq> fill_value_b
                  then Inr (Some (mismatch ''Probe mismatch in inprobe_inital_state data[%i]: %i\<newline>'' i d))
                  else Inr None))
          (values_count - offset one div 4) 0)
       (Inr (True, []))"

text \<open>A probe's result in the run: its output is printed, a fault ends the run.\<close>

definition probed :: "(fill_world \<Rightarrow> fault + bool \<times> event list) \<Rightarrow> (fill_world, bool) program" where
  "probed p w =
     (case p w of
        Inl f \<Rightarrow> (Fault f, w)
      | Inr (r, out) \<Rightarrow> (Return r, w\<lparr>stdout := stdout w @ out\<rparr>))"

definition probe_offseted_part_of_ssbo :: "nat \<Rightarrow> test_case \<Rightarrow> (fill_world, bool) program" where
  "probe_offseted_part_of_ssbo ssbo one w =
     (if offset one = 0 then ret True w
      else
        (let w1 = w\<lparr>ssbo_binding := ssbo\<rparr>;
             coherent_memory = glMapBufferRange w1 0 (unat (offset one));
             data = deref w1 coherent_memory
         in probed (\<lambda>_.
              finish
                (for_loop
                   (\<lambda>i. read data i (\<lambda>d.
                           if d \<noteq> fill_value_a
                           then Inr (Some (mismatch ''Probe mismatch in probe_offseted_part_of_ssbo data[%i]: %i\<newline>'' i d))
                           else Inr None))
                   (offset one div 4) 0)
                (Inr (True, []))) w1))"

subsection \<open>The compute shader\<close>

text \<open>
  \<^verbatim>\<open>compute_shader_text\<close>, run by one invocation with \<^verbatim>\<open>gl_GlobalInvocationID.x = x\<close>
  on the buffer bound to binding 0 (\<^verbatim>\<open>int data[]\<close> starts at the first byte of the
  buffer, whatever range is mapped). GLSL's \<^verbatim>\<open>mod\<close> works on floats; the invocation
  numbers, below 45000, and the strides are taken to be exact there, so that it is the
  remainder of the integers. A dispatch of \<open>n\<close> groups runs the \<open>1000 * n\<close> invocations
  (\<^verbatim>\<open>local_size_x = 1000\<close>); they write different elements, so their order does not show.
\<close>

definition compute_shader_main :: "uniforms \<Rightarrow> nat \<Rightarrow> (nat \<Rightarrow> byte) \<Rightarrow> (nat \<Rightarrow> byte)" where
  "compute_shader_main u x data =
     (if u_start_bound u \<le> of_nat x \<and> of_nat x < u_end_bound u then
        (if (of_nat x :: uint32) mod u_stride u = 0
         then store_int data (4 * x) (u_value u)
         else data)
      else data)"

definition run_compute_shader :: "nat \<Rightarrow> uniforms \<Rightarrow> (nat \<Rightarrow> byte) \<Rightarrow> (nat \<Rightarrow> byte)" where
  "run_compute_shader num_groups_x u data =
     fold (compute_shader_main u) [0..<num_groups_x * 1000] data"

text \<open>A driver that runs the shader as its text says, on the bound buffer only.\<close>

definition runs_shader :: "fill_env \<Rightarrow> bool" where
  "runs_shader env \<longleftrightarrow>
     (\<forall>n b u s. glDispatchCompute env n b u s = s(b := run_compute_shader n u (s b)))"

definition compute_exec ::
    "fill_env \<Rightarrow> nat \<Rightarrow> test_case \<Rightarrow> uint32 \<Rightarrow> uint32 \<Rightarrow> int32 \<Rightarrow> (fill_world, unit) program" where
  "compute_exec env ssbo one start_bound end_bound value w =
     (let w1 = w\<lparr>ssbo_binding := ssbo\<rparr>;
          w2 = w1\<lparr>uniform := \<lparr>u_stride = stride one,
                                u_start_bound = max (offset one) start_bound,
                                u_end_bound = end_bound,
                                u_value = value\<rparr>\<rparr>
      in ret () (w2\<lparr>storage := glDispatchCompute env 45 (ssbo_binding w2) (uniform w2) (storage w2)\<rparr>))"

subsection \<open>The test script\<close>

record coherent_data =
  ssbo_id :: nat
  data_ptr :: mapping

definition one_third :: uint32 where
  "one_third = values_count div 3"

definition two_third :: uint32 where
  "two_third = 2 * one_third"

definition modifed_value :: int32 where
  "modifed_value = 0x2AAAAAAA"

definition remodifed_value :: int32 where
  "remodifed_value = 0x664574AA"

text \<open>\<^verbatim>\<open>pass &= probe(...)\<close>: the probe runs whatever \<open>pass\<close> is.\<close>

definition and_pass :: "bool \<Rightarrow> (fill_world, bool) program \<Rightarrow> (fill_world, bool) program" where
  "and_pass pass probe = bind probe (\<lambda>r. ret (pass \<and> r))"

definition probe_inital_state_of :: "coherent_data \<Rightarrow> test_case \<Rightarrow> (fill_world, bool) program" where
  "probe_inital_state_of b one = probed (\<lambda>w. probe_inital_state (deref w (data_ptr b)) one)"

definition probe_value_in_range_of ::
    "coherent_data \<Rightarrow> test_case \<Rightarrow> uint32 \<Rightarrow> uint32 \<Rightarrow> int32 \<Rightarrow> (fill_world, bool) program" where
  "probe_value_in_range_of b one start_bound end_bound value =
     probed (\<lambda>w. probe_value_in_range (deref w (data_ptr b)) one start_bound end_bound value)"

text \<open>The three buffers: \<^verbatim>\<open>init_ssbo\<close> and \<^verbatim>\<open>map_ssbo\<close> for each.\<close>

definition test_script_buffers ::
    "'e env_scheme \<Rightarrow> test_case \<Rightarrow> (fill_world, coherent_data \<times> coherent_data \<times> coherent_data) program" where
  "test_script_buffers env one =
     bind (init_ssbo env) (\<lambda>a_id. bind (map_ssbo a_id (offset one)) (\<lambda>a_data.
     bind (init_ssbo env) (\<lambda>b_id. bind (map_ssbo b_id (offset one)) (\<lambda>b_data.
     bind (init_ssbo env) (\<lambda>c_id. bind (map_ssbo c_id (offset one)) (\<lambda>c_data.
     ret (\<lparr>ssbo_id = a_id, data_ptr = a_data\<rparr>,
          \<lparr>ssbo_id = b_id, data_ptr = b_data\<rparr>,
          \<lparr>ssbo_id = c_id, data_ptr = c_data\<rparr>)))))))"

definition test_script_initial ::
    "test_case \<Rightarrow> coherent_data \<Rightarrow> coherent_data \<Rightarrow> coherent_data \<Rightarrow> bool \<Rightarrow> (fill_world, bool) program" where
  "test_script_initial one buff_a buff_b buff_c pass =
     bind (and_pass pass (probe_inital_state_of buff_a one)) (\<lambda>pass.
     bind (and_pass pass (probe_inital_state_of buff_b one)) (\<lambda>pass.
     and_pass pass (probe_inital_state_of buff_c one)))"

definition stage_1 ::
    "fill_env \<Rightarrow> test_case \<Rightarrow> coherent_data \<Rightarrow> coherent_data \<Rightarrow> coherent_data \<Rightarrow> bool \<Rightarrow> (fill_world, bool) program" where
  "stage_1 env one buff_a buff_b buff_c pass =
     bind (compute_exec env (ssbo_id buff_b) one 0 one_third modifed_value) (\<lambda>_.
     bind fence (\<lambda>_.
     bind (and_pass pass (probe_value_in_range_of buff_b one 0 one_third modifed_value)) (\<lambda>pass.
     bind (and_pass pass (probe_inital_state_of buff_a one)) (\<lambda>pass.
     and_pass pass (probe_inital_state_of buff_c one)))))"

definition stage_2 ::
    "fill_env \<Rightarrow> test_case \<Rightarrow> coherent_data \<Rightarrow> coherent_data \<Rightarrow> coherent_data \<Rightarrow> bool \<Rightarrow> (fill_world, bool) program" where
  "stage_2 env one buff_a buff_b buff_c pass =
     bind (compute_exec env (ssbo_id buff_a) one 0 values_count modifed_value) (\<lambda>_.
     bind (compute_exec env (ssbo_id buff_b) one one_third two_third modifed_value) (\<lambda>_.
     bind fence (\<lambda>_.
     bind (and_pass pass (probe_value_in_range_of buff_a one 0 values_count modifed_value)) (\<lambda>pass.
     bind (and_pass pass (probe_value_in_range_of buff_b one 0 two_third modifed_value)) (\<lambda>pass.
     and_pass pass (probe_inital_state_of buff_c one))))))"

definition stage_3 ::
    "fill_env \<Rightarrow> test_case \<Rightarrow> coherent_data \<Rightarrow> coherent_data \<Rightarrow> coherent_data \<Rightarrow> bool \<Rightarrow> (fill_world, bool) program" where
  "stage_3 env one buff_a buff_b buff_c pass =
     bind (compute_exec env (ssbo_id buff_a) one 0 values_count modifed_value) (\<lambda>_.
     bind (compute_exec env (ssbo_id buff_b) one one_third two_third remodifed_value) (\<lambda>_.
     bind (compute_exec env (ssbo_id buff_c) one one_third two_third modifed_value) (\<lambda>_.
     bind fence (\<lambda>_.
     bind (and_pass pass (probe_value_in_range_of buff_a one 0 values_count modifed_value)) (\<lambda>pass.
     bind (and_pass pass (probe_value_in_range_of buff_b one 0 one_third modifed_value)) (\<lambda>pass.
     bind (and_pass pass (probe_value_in_range_of buff_b one one_third two_third remodifed_value)) (\<lambda>pass.
     and_pass pass (probe_value_in_range_of buff_c one one_third two_third modifed_value))))))))"

definition test_script_offseted ::
    "test_case \<Rightarrow> coherent_data \<Rightarrow> coherent_data \<Rightarrow> coherent_data \<Rightarrow> bool \<Rightarrow> (fill_world, bool) program" where
  "test_script_offseted one buff_a buff_b buff_c pass =
     bind (and_pass pass (probe_offseted_part_of_ssbo (ssbo_id buff_a) one)) (\<lambda>pass.
     bind (and_pass pass (probe_offseted_part_of_ssbo (ssbo_id buff_b) one)) (\<lambda>pass.
     and_pass pass (probe_offseted_part_of_ssbo (ssbo_id buff_c) one)))"

text \<open>
  \<^verbatim>\<open>test_script\<close>, block by block: the buffers, the probes of the initial state, the
  three stages, the probes of the part before the offset. \<^verbatim>\<open>glUseProgram\<close> has no effect
  the model keeps.
\<close>

definition test_script :: "fill_env \<Rightarrow> test_case \<Rightarrow> (fill_world, bool) program" where
  "test_script env one =
     bind (test_script_buffers env one) (\<lambda>(buff_a, buff_b, buff_c).
     bind (test_script_initial one buff_a buff_b buff_c True) (\<lambda>pass.
     bind (stage_1 env one buff_a buff_b buff_c pass) (\<lambda>pass.
     bind (stage_2 env one buff_a buff_b buff_c pass) (\<lambda>pass.
     bind (stage_3 env one buff_a buff_b buff_c pass) (\<lambda>pass.
     test_script_offseted one buff_a buff_b buff_c pass)))))"

subsection \<open>main\<close>

text \<open>
  The loop \<^verbatim>\<open>for (int i = 0; i < 7; i++)\<close> over \<^verbatim>\<open>test_cases[i]\<close>, as a recursion over
  the seven entries.
\<close>

fun run_test_cases :: "fill_env \<Rightarrow> test_case list \<Rightarrow> bool \<Rightarrow> (fill_world, bool) program" where
  "run_test_cases env [] pass = ret pass"
| "run_test_cases env (tc # rest) pass =
     bind (test_script env tc) (\<lambda>r.
     bind (if \<not> (r \<and> pass)
           then printf ''Test failed  with offset: %u stride: %u \<newline>''
                  [Arg_uint (unat (offset tc)), Arg_uint (unat (stride tc))]
           else ret ()) (\<lambda>_.
     run_test_cases env rest (r \<and> pass)))"

definition fill_start :: fill_world where
  "fill_start =
     \<lparr>stdout = [], stderr = [], glGetError_calls = 0, prog = 0,
      buffer_names = 0, buffer_size = (\<lambda>_. 0), storage = (\<lambda>_ _. 0), ssbo_binding = 0,
      uniform = \<lparr>u_stride = 0, u_start_bound = 0, u_end_bound = 0, u_value = 0\<rparr>\<rparr>"

text \<open>
  \<^verbatim>\<open>main(argc, argv)\<close> of fill_ssbo_coherent; \<open>argv\<close> is the argument vector. The last
  statement of the source is \<^verbatim>\<open>return 0 ; // pass ? 0 : EXIT_FAILURE;\<close>.
\<close>

definition main_fill :: "fill_env \<Rightarrow> string list \<Rightarrow> int outcome \<times> fill_world" where
  "main_fill env argv =
     (if \<not> glfwCreateWindow env then ret (EXIT_SKIP env) fill_start
      else if \<not> gladLoadGLLoader env then ret EXIT_FAILURE fill_start
      else
        bind (require_extension env ''GL_ARB_uniform_buffer_object'' (GLAD_GL_VERSION_4_4 env)) (\<lambda>_.
        bind (require_extension env ''GL_ARB_buffer_storage'' (GLAD_GL_VERSION_4_4 env)) (\<lambda>_.
        bind (require_extension env ''GL_ARB_map_buffer_range'' (GLAD_GL_VERSION_4_4 env)) (\<lambda>_.
        bind (require_extension env ''GL_VMWX_map_buffer_debug'' (GLAD_GL_VERSION_4_4 env)) (\<lambda>_.
        bind (build_programm env) (\<lambda>_.
        bind (run_test_cases env (init_test_cases env) True) (\<lambda>pass.
        ret 0)))))) fill_start)"

section \<open>map_and_draw_coherent\<close>

text \<open>
  The second program has its own \<^verbatim>\<open>check_error\<close>, \<^verbatim>\<open>reqire_extension\<close> (so spelled) and
  \<^verbatim>\<open>build_programm\<close>. Its buffers hold floats and indices, written through the three
  mapped pointers \<^verbatim>\<open>coherent_memory[0..2]\<close> one element after the other
  (\<^verbatim>\<open>a[index++] = v\<close>): each array is modelled as the list of the values written so far.
  A float is kept as the expression that computes it: \<open>Float_div a b\<close> is
  \<^verbatim>\<open>(float)a / (float)b\<close>. The \<^verbatim>\<open>int\<close> counters of this program are modelled as
  unbounded integers: with the arguments \<^verbatim>\<open>main\<close> passes they stay below 300000.
\<close>

datatype float_val = Float_div int int | Float_lit int

text \<open>C's integer division truncates towards zero.\<close>

definition c_div :: "int \<Rightarrow> int \<Rightarrow> int" where
  "c_div a b = sgn a * sgn b * (\<bar>a\<bar> div \<bar>b\<bar>)"

record draw_world = world +
  mapped_size :: nat
  color_memory :: "float_val list"
  vertex_memory :: "float_val list"
  index_memory :: "uint32 list"
  indexes_count :: int
  window_pixels :: "nat \<Rightarrow> uint32"
  polls :: nat

text \<open>
  The driver's part: the name \<^verbatim>\<open>glGenBuffers\<close> gives the SSBO, whether the framebuffer is
  complete, what the k-th call of \<^verbatim>\<open>glfwWindowShouldClose\<close> returns, and the pixels that
  drawing the indexed triangle strip and blitting it puts in the window.
\<close>

record draw_env = env +
  glGenBuffers :: uint32
  framebuffer_complete :: bool
  glfwWindowShouldClose :: "nat \<Rightarrow> bool"
  glDrawElements :: "float_val list \<Rightarrow> uint32 list \<Rightarrow> int \<Rightarrow> float_val list \<Rightarrow> (nat \<Rightarrow> uint32)"

definition check_error_draw :: "'e env_scheme \<Rightarrow> ('w world_scheme, unit) program" where
  "check_error_draw env w =
     (let error = glGetError env (glGetError_calls w);
          w' = w\<lparr>glGetError_calls := Suc (glGetError_calls w)\<rparr>
      in if error = GL_NO_ERROR then ret () w'
         else if error = GL_OUT_OF_MEMORY then exit (EXIT_SKIP env) w'
         else exit EXIT_FAILURE w')"

definition reqire_extension :: "'e env_scheme \<Rightarrow> string \<Rightarrow> int32 \<Rightarrow> ('w world_scheme, unit) program" where
  "reqire_extension env extension gl_version =
     (if gl_version = 0 \<and> \<not> glfwExtensionSupported env ''extension'' then
        bind (fprintf_stderr ''error: %s not supported\<newline>'' [Arg_str extension])
          (\<lambda>_. exit (EXIT_SKIP env))
      else ret ())"

definition build_programm_draw :: "'e env_scheme \<Rightarrow> ('w world_scheme, unit) program" where
  "build_programm_draw env =
     bind (if \<not> GL_COMPILE_STATUS env 0
           then printf ''ERROR::SHADER::VERTEX::COMPILATION_FAILED %s\<newline>'' [Arg_str (infoLog env)]
           else ret ()) (\<lambda>_.
     bind (if \<not> GL_COMPILE_STATUS env 1
           then printf ''ERROR::SHADER::FRAGMENT::COMPILATION_FAILED %s\<newline>'' [Arg_str (infoLog env)]
           else ret ()) (\<lambda>_.
     bind (\<lambda>w. ret () (w\<lparr>prog := glCreateProgram env\<rparr>)) (\<lambda>_.
     bind (if \<not> GL_LINK_STATUS env
           then printf ''ERROR::SHADER::PROGRAM::LINKING_FAILED %s\<newline>'' [Arg_str (infoLog env)]
           else ret ()) (\<lambda>_.
     (\<lambda>w. if prog w = 0 then (Fault Assertion_failed, w) else ret () w)))))"

text \<open>
  \<^verbatim>\<open>setup_buffers\<close>: the three buffers have \<^verbatim>\<open>width * height * 4 * sizeof(float)\<close> bytes
  each and are mapped whole. \<^verbatim>\<open>assert(ssbo)\<close> follows the first mapping.
\<close>

definition setup_buffers :: "draw_env \<Rightarrow> int \<Rightarrow> int \<Rightarrow> (draw_world, bool) program" where
  "setup_buffers env width height =
     bind (reqire_extension env ''GL_ARB_uniform_buffer_object'' (GLAD_GL_VERSION_4_4 env)) (\<lambda>_.
     bind (reqire_extension env ''GL_ARB_buffer_storage'' (GLAD_GL_VERSION_4_4 env)) (\<lambda>_.
     bind (reqire_extension env ''GL_ARB_map_buffer_range'' (GLAD_GL_VERSION_4_4 env)) (\<lambda>_.
     bind (reqire_extension env ''GL_VMWX_map_buffer_debug'' (GLAD_GL_VERSION_4_4 env)) (\<lambda>_.
     bind (\<lambda>w. ret () (w\<lparr>mapped_size := nat (width * height * 4 * 4)\<rparr>)) (\<lambda>_.
     bind (\<lambda>w. if glGenBuffers env = 0 then (Fault Assertion_failed, w) else ret () w) (\<lambda>_.
     bind (check_error_draw env) (\<lambda>_.
     if \<not> framebuffer_complete env then ret False
     else bind (check_error_draw env) (\<lambda>_. ret True))))))))"

text \<open>A write past the mapped bytes is out of bounds; an element has four bytes.\<close>

definition fits :: "draw_world \<Rightarrow> 'a list \<Rightarrow> bool" where
  "fits w xs \<longleftrightarrow> 4 * length xs \<le> mapped_size w"

function colors_row :: "int \<Rightarrow> int \<Rightarrow> int \<Rightarrow> int \<Rightarrow> float_val list \<Rightarrow> float_val list" where
  "colors_row width height y x color =
     (if x < width then
        colors_row width height y (x + 1)
          (color @ [Float_div x width, Float_div y height,
                    Float_div (x + y * width) (width * height), Float_lit 1])
      else color)"
  by pat_completeness auto
termination
  by (relation "measure (\<lambda>(width, height, y, x, color). nat (width - x))") auto

declare colors_row.simps [simp del]

function colors_rows :: "int \<Rightarrow> int \<Rightarrow> int \<Rightarrow> float_val list \<Rightarrow> float_val list" where
  "colors_rows width height y color =
     (if y < height then colors_rows width height (y + 1) (colors_row width height y 0 color)
      else color)"
  by pat_completeness auto
termination
  by (relation "measure (\<lambda>(width, height, y, color). nat (height - y))") auto

declare colors_rows.simps [simp del]

definition generate_colors :: "int \<Rightarrow> int \<Rightarrow> int \<Rightarrow> (draw_world, unit) program" where
  "generate_colors width height step w =
     (let color = colors_rows width height 0 [] in
      if \<not> fits w color then (Fault Out_of_bounds, w)
      else printf ''Colors count %d \<newline>'' [Arg_int (c_div (int (length color)) 4)]
             (w\<lparr>color_memory := color\<rparr>))"

text \<open>
  The two loops of \<^verbatim>\<open>generateVerticles\<close> over the vertices step by \<open>step\<close>, which
  need not be positive: they may run forever, and then give \<open>None\<close>.
\<close>

partial_function (option) vertices_row ::
    "int \<Rightarrow> int \<Rightarrow> int \<Rightarrow> int \<Rightarrow> int \<Rightarrow> float_val list \<Rightarrow> float_val list option" where
  "vertices_row width height step y x vertices =
     (if x \<le> c_div width 2 then
        vertices_row width height step y (x + step)
          (vertices @ [Float_div x (c_div width 2), Float_div y (c_div height 2), Float_lit 0])
      else Some vertices)"

partial_function (option) vertices_rows ::
    "int \<Rightarrow> int \<Rightarrow> int \<Rightarrow> int \<Rightarrow> float_val list \<Rightarrow> float_val list option" where
  "vertices_rows width height step y vertices =
     (if y \<ge> 0 - c_div height 2 then
        Option.bind (vertices_row width height step y (0 - c_div width 2) vertices)
          (\<lambda>vertices. vertices_rows width height step (y - step) vertices)
      else Some vertices)"

function indexes_row :: "int \<Rightarrow> int \<Rightarrow> int \<Rightarrow> uint32 list \<Rightarrow> uint32 list" where
  "indexes_row cols y x indexes =
     (if x \<le> cols then
        indexes_row cols y (x + 1)
          (indexes @ [of_int (y * (cols + 1) + x), of_int ((y + 1) * (cols + 1) + x)])
      else indexes)"
  by pat_completeness auto
termination
  by (relation "measure (\<lambda>(cols, y, x, indexes). nat (cols + 1 - x))") auto

declare indexes_row.simps [simp del]

function indexes_rows :: "int \<Rightarrow> int \<Rightarrow> int \<Rightarrow> uint32 list \<Rightarrow> uint32 list" where
  "indexes_rows cols rows y indexes =
     (if y < rows then
        indexes_rows cols rows (y + 1)
          (indexes_row cols y 0 (indexes @ [of_int (y * (cols + 1))])
             @ [of_int ((y + 1) * (cols + 1) + (cols - 1))])
      else indexes)"
  by pat_completeness auto
termination
  by (relation "measure (\<lambda>(cols, rows, y, indexes). nat (rows - y))") auto

declare indexes_rows.simps [simp del]

definition generateVerticles :: "int \<Rightarrow> int \<Rightarrow> int \<Rightarrow> draw_world \<Rightarrow> (unit outcome \<times> draw_world) option" where
  "generateVerticles width height step w =
     (case vertices_rows width height step (c_div height 2) [] of
        None \<Rightarrow> None
      | Some vertices \<Rightarrow>
          Some
            ((if \<not> fits w vertices then (\<lambda>w. (Fault Out_of_bounds, w))
              else
                bind (\<lambda>w. ret () (w\<lparr>vertex_memory := vertices\<rparr>)) (\<lambda>_.
                bind (printf ''Vertexes count %d \<newline>'' [Arg_int (c_div (int (length vertices)) 3)]) (\<lambda>_.
                if step = 0 then (\<lambda>w. (Fault Division_by_zero, w))
                else
                  (let cols = c_div width step;
                       rows = c_div height step;
                       indexes = indexes_rows cols rows 0 []
                   in if \<not> fits w indexes then (\<lambda>w. (Fault Out_of_bounds, w))
                      else
                        bind (\<lambda>w. ret () (w\<lparr>index_memory := indexes,
                                               indexes_count := int (length indexes)\<rparr>)) (\<lambda>_.
                        printf ''Indexes count %d \<newline>'' [Arg_int (int (length indexes))]))))) w))"

text \<open>
  \<^verbatim>\<open>draw\<close> renders and blits until the window is to be closed; the window may stay open
  for ever.
\<close>

partial_function (option) draw :: "draw_env \<Rightarrow> draw_world \<Rightarrow> draw_world option" where
  "draw env w =
     (if glfwWindowShouldClose env (polls w) then Some (w\<lparr>polls := Suc (polls w)\<rparr>)
      else
        draw env
          (w\<lparr>polls := Suc (polls w),
             window_pixels :=
               glDrawElements env (vertex_memory w) (index_memory w) (indexes_count w) (color_memory w)\<rparr>))"

definition draw_start :: draw_world where
  "draw_start =
     \<lparr>stdout = [], stderr = [], glGetError_calls = 0, prog = 0,
      mapped_size = 0, color_memory = [], vertex_memory = [], index_memory = [],
      indexes_count = 0, window_pixels = (\<lambda>_. 0), polls = 0\<rparr>"

text \<open>
  \<^verbatim>\<open>main(argc, argv)\<close> of map_and_draw_coherent. \<open>pass\<close> is set to \<open>true\<close> and never
  assigned again: the four calls of \<^verbatim>\<open>probe\<close> are comments, as \<^verbatim>\<open>probe\<close> itself is.
\<close>

definition main_draw :: "draw_env \<Rightarrow> string list \<Rightarrow> (int outcome \<times> draw_world) option" where
  "main_draw env argv =
     (let pass = True; width = 256; height = 256; step = 8;
          (r0, w0) = printf ''getSystemPageSize: %u\<newline>'' [Arg_uint (getSystemPageSize env)] draw_start
      in if \<not> glfwCreateWindow env then Some (Return (EXIT_SKIP env), w0)
         else if \<not> gladLoadGLLoader env then Some (Return EXIT_FAILURE, w0)
         else
           (case bind (build_programm_draw env) (\<lambda>_. setup_buffers env width height) w0 of
              (Exit code, w1) \<Rightarrow> Some (Exit code, w1)
            | (Fault e, w1) \<Rightarrow> Some (Fault e, w1)
            | (Return False, w1) \<Rightarrow> Some (Return (if pass then 0 else EXIT_FAILURE), w1)
            | (Return True, w1) \<Rightarrow>
                (case generateVerticles width height step w1 of
                   None \<Rightarrow> None
                 | Some (Exit code, w2) \<Rightarrow> Some (Exit code, w2)
                 | Some (Fault e, w2) \<Rightarrow> Some (Fault e, w2)
                 | Some (Return _, w2) \<Rightarrow>
                     (case generate_colors width height step w2 of
                        (Exit code, w3) \<Rightarrow> Some (Exit code, w3)
                      | (Fault e, w3) \<Rightarrow> Some (Fault e, w3)
                      | (Return _, w3) \<Rightarrow>
                          (case draw env w3 of
                             None \<Rightarrow> None
                           | Some w4 \<Rightarrow> Some (Return (if pass then 0 else EXIT_FAILURE), w4))))))"

section \<open>Environments and inputs of the examples\<close>

text \<open>
  A desktop whose driver gives OpenGL 4.4 or later, reports no error and runs the compute
  shader as written; the page size is 4096 and the build defines \<^verbatim>\<open>EXIT_SKIP\<close> as 125.
\<close>

definition conforming :: fill_env where
  "conforming =
     \<lparr>EXIT_SKIP = 125, getSystemPageSize = 4096, glfwCreateWindow = True,
      gladLoadGLLoader = True, GLAD_GL_VERSION_4_4 = 1,
      glfwExtensionSupported = (\<lambda>_. False), glGetError = (\<lambda>_. GL_NO_ERROR),
      glCreateProgram = 1, GL_COMPILE_STATUS = (\<lambda>_. True), GL_LINK_STATUS = True,
      infoLog = [],
      glDispatchCompute = (\<lambda>n b u s. s(b := run_compute_shader n u (s b)))\<rparr>"


text \<open>
  A driver or tracer under which no write of the compute shader reaches the buffer the
  CPU reads: a dispatch leaves every data store as it was. Everything else is as in
  \<open>conforming\<close>.
\<close>

definition loses_writes :: fill_env where
  "loses_writes = conforming\<lparr>glDispatchCompute := (\<lambda>n b u s. s)\<rparr>"

text \<open>
  The environment of map_and_draw_coherent: as \<open>conforming\<close>, with a complete framebuffer
  and a window that stays open for one frame: it is to be closed from the second poll on.
\<close>

definition closes_after_a_frame :: draw_env where
  "closes_after_a_frame =
     \<lparr>EXIT_SKIP = 125, getSystemPageSize = 4096, glfwCreateWindow = True,
      gladLoadGLLoader = True, GLAD_GL_VERSION_4_4 = 1,
      glfwExtensionSupported = (\<lambda>_. False), glGetError = (\<lambda>_. GL_NO_ERROR),
      glCreateProgram = 1, GL_COMPILE_STATUS = (\<lambda>_. True), GL_LINK_STATUS = True,
      infoLog = [],
      glGenBuffers = 1, framebuffer_complete = True, glfwWindowShouldClose = (\<lambda>poll. 0 < poll),
      glDrawElements = (\<lambda>_ _ _ _ _. 0)\<rparr>"

text \<open>The world of map_and_draw_coherent once \<^verbatim>\<open>setup_buffers(256, 256)\<close> has mapped its buffers.\<close>

definition buffers_ready :: draw_world where
  "buffers_ready = draw_start\<lparr>mapped_size := 1048576\<rparr>"

text \<open>\<^verbatim>\<open>test_cases[0]\<close>, and \<^verbatim>\<open>test_cases[1]\<close> for the page size 4096.\<close>

definition first_case :: test_case where
  "first_case = \<lparr>stride = 2, offset = 0\<rparr>"

definition second_case :: test_case where
  "second_case = \<lparr>stride = 4096, offset = 4096\<rparr>"

text \<open>A mapped array in which every element is \<^verbatim>\<open>fill_value_b\<close>.\<close>

definition all_b :: "int \<Rightarrow> int32 option" where
  "all_b i = Some fill_value_b"

section \<open>Predicates of the statements\<close>

text \<open>
  An offset sits exactly 4 bytes before or after a page boundary (a multiple of the page
  size \<open>p\<close>).
\<close>

definition four_from_page_boundary :: "nat \<Rightarrow> nat \<Rightarrow> bool" where
  "four_from_page_boundary p off \<longleftrightarrow> (off + 4) mod p = 0 \<or> (4 \<le> off \<and> (off - 4) mod p = 0)"

definition offsets_four_from_boundary :: "'e env_scheme \<Rightarrow> nat list" where
  "offsets_four_from_boundary env =
     filter (four_from_page_boundary (getSystemPageSize env))
       (map (\<lambda>t. unat (offset t)) (init_test_cases env))"

text \<open>
  What \<^verbatim>\<open>probe_value_in_range\<close> asks of \<^verbatim>\<open>data[i]\<close> in its first and in its second
  loop.
\<close>

definition first_range_ok :: "(int \<Rightarrow> int32 option) \<Rightarrow> test_case \<Rightarrow> int32 \<Rightarrow> bool" where
  "first_range_ok data one i \<longleftrightarrow>
     ((i + offset one div 4) mod stride one \<noteq> 0 \<longrightarrow> data (sint i) = Some fill_value_b)"

definition second_range_ok :: "(int \<Rightarrow> int32 option) \<Rightarrow> test_case \<Rightarrow> int32 \<Rightarrow> int32 \<Rightarrow> bool" where
  "second_range_ok data one value i \<longleftrightarrow>
     ((i + offset one div 4) mod stride one = 0 \<longrightarrow> data (sint i) = Some value)"

text \<open>
  The condition of \<^verbatim>\<open>probe_value_in_range\<close> with both ranges read as intervals of
  integers, \<open>[0, values_count - offset / 4)\<close> and
  \<open>[start_bound - offset / 4, end_bound - offset / 4)\<close>, whatever the sign of the bounds.
\<close>

definition integer_ranges_ok :: "(int \<Rightarrow> int32 option) \<Rightarrow> test_case \<Rightarrow> uint32 \<Rightarrow> uint32 \<Rightarrow> int32 \<Rightarrow> bool" where
  "integer_ranges_ok data one start_bound end_bound value \<longleftrightarrow>
     (\<forall>i\<in>{0 ..< uint values_count - uint (offset one) div 4}.
        \<not> uint (stride one) dvd i + uint (offset one) div 4 \<longrightarrow> data i = Some fill_value_b)
     \<and> (\<forall>i\<in>{uint start_bound - uint (offset one) div 4 ..< uint end_bound - uint (offset one) div 4}.
          uint (stride one) dvd i + uint (offset one) div 4 \<longrightarrow> data i = Some value)"

text \<open>
  A buffer of the test script: mapped from the test case's offset to its end, the bytes
  before the offset holding the byte of \<^verbatim>\<open>fill_value_a\<close> and the mapped bytes the byte
  of \<^verbatim>\<open>fill_value_b\<close>.
\<close>

definition mapped_from :: "test_case \<Rightarrow> coherent_data \<Rightarrow> bool" where
  "mapped_from one x \<longleftrightarrow>
     data_ptr x = \<lparr>buf = ssbo_id x, map_offset = unat (offset one),
                   map_length = 180000 - unat (offset one)\<rparr>"

definition filled :: "test_case \<Rightarrow> fill_world \<Rightarrow> nat \<Rightarrow> bool" where
  "filled one w ssbo \<longleftrightarrow>
     buffer_size w ssbo = 180000
     \<and> (\<forall>a<unat (offset one). storage w ssbo a = ucast fill_value_a)
     \<and> (\<forall>a. unat (offset one) \<le> a \<and> a < 180000 \<longrightarrow> storage w ssbo a = ucast fill_value_b)"

text \<open>
  The test cases on which no probe leaves the mapped range: a stride that is not 0, an
  offset that is a multiple of 4 and at most 60000 (so that \<open>offset / 4\<close> is at most
  \<^verbatim>\<open>one_third\<close>). The seven test cases of a page size of 4096 or 16384 bytes are such.
\<close>

definition usable :: "test_case \<Rightarrow> bool" where
  "usable one \<longleftrightarrow> stride one \<noteq> 0 \<and> 4 dvd unat (offset one) \<and> unat (offset one) \<le> 60000"

text \<open>The line \<^verbatim>\<open>main\<close> prints when a test case has failed.\<close>

definition test_failed :: "test_case \<Rightarrow> event" where
  "test_failed tc =
     Printf ''Test failed  with offset: %u stride: %u \<newline>''
       [Arg_uint (unat (offset tc)), Arg_uint (unat (stride tc))]"

section \<open>Assertions on runs\<close>

text \<open>
  \<open>triple P m Q\<close>: from every world that satisfies \<open>P\<close>, the program \<open>m\<close> returns
  (it neither exits nor faults), and its result and final world satisfy \<open>Q\<close>.
\<close>

definition triple :: "('w \<Rightarrow> bool) \<Rightarrow> ('w, 'a) program \<Rightarrow> ('a \<Rightarrow> 'w \<Rightarrow> bool) \<Rightarrow> bool" where
  "triple P m Q \<longleftrightarrow> (\<forall>w. P w \<longrightarrow> (\<exists>x w'. m w = (Return x, w') \<and> Q x w'))"

text \<open>
  An assertion that the steps of the test script keep: printing, binding a buffer, and
  \<^verbatim>\<open>compute_exec\<close> on one of the script's buffers; it also says that these buffers have
  180000 bytes.
\<close>

definition invariant :: "fill_env \<Rightarrow> test_case \<Rightarrow> nat set \<Rightarrow> (fill_world \<Rightarrow> bool) \<Rightarrow> bool" where
  "invariant env one ids I \<longleftrightarrow>
     (\<forall>w out. I w \<longrightarrow> I (w\<lparr>stdout := stdout w @ out\<rparr>))
     \<and> (\<forall>w ssbo. I w \<longrightarrow> I (w\<lparr>ssbo_binding := ssbo\<rparr>))
     \<and> (\<forall>w ssbo sb eb v. I w \<and> ssbo \<in> ids \<longrightarrow> I (snd (compute_exec env ssbo one sb eb v w)))
     \<and> (\<forall>w ssbo. I w \<and> ssbo \<in> ids \<longrightarrow> buffer_size w ssbo = 180000)"

text \<open>
  The world \<open>w1\<close> after the three buffers were made in \<open>w\<close>; then what the script keeps
  of it: the three buffers, and the bytes before the offset.
\<close>

definition buffers_made :: "test_case \<Rightarrow> fill_world \<Rightarrow> fill_world \<Rightarrow> bool" where
  "buffers_made one w w1 \<longleftrightarrow>
     buffer_names w1 = buffer_names w + 3 \<and> glGetError_calls w1 = glGetError_calls w + 3
     \<and> stdout w1 = stdout w \<and> stderr w1 = stderr w \<and> prog w1 = prog w
     \<and> filled one w1 (buffer_names w + 1) \<and> filled one w1 (buffer_names w + 2)
     \<and> filled one w1 (buffer_names w + 3)"

definition allocated :: "nat \<Rightarrow> fill_world \<Rightarrow> bool" where
  "allocated n w \<longleftrightarrow>
     buffer_names w = n + 3 \<and> (\<forall>ssbo\<in>{n + 1, n + 2, n + 3}. buffer_size w ssbo = 180000)"

definition prefix_kept :: "test_case \<Rightarrow> nat \<Rightarrow> fill_world \<Rightarrow> bool" where
  "prefix_kept one n w \<longleftrightarrow>
     buffer_names w = n + 3
     \<and> (\<forall>ssbo\<in>{n + 1, n + 2, n + 3}. buffer_size w ssbo = 180000
          \<and> (\<forall>a<unat (offset one). storage w ssbo a = ucast fill_value_a))"

text \<open>Standard output only grows.\<close>

definition grew :: "fill_world \<Rightarrow> fill_world \<Rightarrow> bool" where
  "grew w w' \<longleftrightarrow> (\<exists>out. stdout w' = stdout w @ out)"

text \<open>Every index of the list is one of \<open>0, \<dots>, hi\<close>, as an \<^verbatim>\<open>unsigned int\<close>.\<close>

definition below :: "int \<Rightarrow> uint32 list \<Rightarrow> bool" where
  "below hi indexes \<longleftrightarrow> (\<forall>v\<in>set indexes. \<exists>k. 0 \<le> k \<and> k \<le> hi \<and> v = of_int k)"

text \<open>
  The number of rounds of a loop that starts \<open>distance\<close> below its bound, the bound
  included, and moves by \<open>step\<close>.
\<close>

definition steps :: "int \<Rightarrow> int \<Rightarrow> nat" where
  "steps distance step = (if 0 \<le> distance then nat (distance div step) + 1 else 0)"

section \<open>Error and extension checks\<close>

text \<open>
  C2. After the allocations they check, \<^verbatim>\<open>check_error\<close> of either program returns
  (the run goes on) exactly when \<^verbatim>\<open>glGetError\<close> gave \<^verbatim>\<open>GL_NO_ERROR\<close>, ends the process
  with \<^verbatim>\<open>EXIT_SKIP\<close> exactly when it gave \<^verbatim>\<open>GL_OUT_OF_MEMORY\<close>, and ends it with
  \<^verbatim>\<open>EXIT_FAILURE\<close> for every other error code. The skip sentinel is a code of its own,
  different from \<^verbatim>\<open>EXIT_FAILURE\<close>.
\<close>

theorem check_error_outcomes:
  assumes "EXIT_SKIP env \<noteq> EXIT_FAILURE"
  shows "(fst (check_error env w) = Return () \<longleftrightarrow> glGetError env (glGetError_calls w) = GL_NO_ERROR)
       \<and> (fst (check_error env w) = Exit (EXIT_SKIP env)
            \<longleftrightarrow> glGetError env (glGetError_calls w) = GL_OUT_OF_MEMORY)
       \<and> (glGetError env (glGetError_calls w) \<noteq> GL_NO_ERROR
            \<and> glGetError env (glGetError_calls w) \<noteq> GL_OUT_OF_MEMORY
            \<longrightarrow> fst (check_error env w) = Exit EXIT_FAILURE)
       \<and> (fst (check_error_draw env w) = Return () \<longleftrightarrow> glGetError env (glGetError_calls w) = GL_NO_ERROR)
       \<and> (fst (check_error_draw env w) = Exit (EXIT_SKIP env)
            \<longleftrightarrow> glGetError env (glGetError_calls w) = GL_OUT_OF_MEMORY)
       \<and> (glGetError env (glGetError_calls w) \<noteq> GL_NO_ERROR
            \<and> glGetError env (glGetError_calls w) \<noteq> GL_OUT_OF_MEMORY
            \<longrightarrow> fst (check_error_draw env w) = Exit EXIT_FAILURE)"
  using assms
  by (simp add: check_error_def check_error_draw_def Let_def ret_def exit_def
      GL_NO_ERROR_def GL_OUT_OF_MEMORY_def)

text \<open>
  The theorem at the environment \<open>conforming\<close>, whose \<^verbatim>\<open>EXIT_SKIP\<close> is 125, with no
  error, with \<^verbatim>\<open>GL_OUT_OF_MEMORY\<close> and with \<^verbatim>\<open>GL_INVALID_OPERATION\<close> (0x0502).
\<close>

theorem check_error_outcomes_witness:
  "EXIT_SKIP conforming \<noteq> EXIT_FAILURE
   \<and> fst (check_error conforming fill_start) = Return ()
   \<and> fst (check_error (conforming\<lparr>glGetError := (\<lambda>_. GL_OUT_OF_MEMORY)\<rparr>) fill_start) = Exit 125
   \<and> fst (check_error_draw (conforming\<lparr>glGetError := (\<lambda>_. 0x0502)\<rparr>) fill_start) = Exit 1"
  using check_error_outcomes [of conforming fill_start]
    check_error_outcomes [of "conforming\<lparr>glGetError := (\<lambda>_. GL_OUT_OF_MEMORY)\<rparr>" fill_start]
    check_error_outcomes [of "conforming\<lparr>glGetError := (\<lambda>_. 0x0502)\<rparr>" fill_start]
  by (simp add: conforming_def EXIT_FAILURE_def GL_NO_ERROR_def GL_OUT_OF_MEMORY_def)

text \<open>
  Both programs' extension check leaves the process with \<^verbatim>\<open>EXIT_SKIP\<close> exactly when
  OpenGL 4.4 is missing and the name \<open>extension\<close> is not in the list of extensions.
\<close>

lemma require_extension_exits_iff:
  "fst (require_extension env extension gl_version w) = Exit (EXIT_SKIP env)
     \<longleftrightarrow> gl_version = 0 \<and> \<not> glfwExtensionSupported env ''extension''"
  by (simp add: require_extension_def bind_def fprintf_stderr_def exit_def ret_def)



section \<open>The test cases\<close>

lemma unat_page:
  assumes "2 * p + 4 < (2::nat) ^ 32"
  shows "unat (of_nat p :: uint32) = p"
    and "unat (of_nat p + 4 :: uint32) = p + 4"
    and "unat (of_nat p * 2 :: uint32) = 2 * p"
    and "unat (of_nat p * 2 + 4 :: uint32) = 2 * p + 4"
  using assms by (simp_all add: unat_word_ariths unat_of_nat mod_simps)

lemma unat_page_minus:
  assumes "4 \<le> p" "2 * p + 4 < (2::nat) ^ 32"
  shows "unat (of_nat p - 4 :: uint32) = p - 4"
    and "unat (of_nat p * 2 - 4 :: uint32) = 2 * p - 4"
proof -
  have u: "unat (of_nat p :: uint32) = p" "unat (of_nat p * 2 :: uint32) = 2 * p"
    using assms(2) by (simp_all add: unat_word_ariths unat_of_nat mod_simps)
  have le: "(4 :: uint32) \<le> of_nat p" "(4 :: uint32) \<le> of_nat p * 2"
    using assms(1) by (simp_all add: word_le_nat_alt u)
  have "unat (of_nat p - 4 :: uint32) = unat (of_nat p :: uint32) - unat (4 :: uint32)"
    and "unat (of_nat p * 2 - 4 :: uint32) = unat (of_nat p * 2 :: uint32) - unat (4 :: uint32)"
    using unat_sub [OF le(1)] unat_sub [OF le(2)] by blast+
  then show "unat (of_nat p - 4 :: uint32) = p - 4"
    and "unat (of_nat p * 2 - 4 :: uint32) = 2 * p - 4"
    by (simp_all add: u)
qed

text \<open>
  C4, amended. For a page size \<open>p\<close> with \<open>4 < p\<close> and \<open>2 * p + 4 < 2 ^ 32\<close>,
  \<^verbatim>\<open>init_test_cases\<close> gives exactly 7 test cases: stride 2 with offset 0, then stride
  \<open>p\<close> with the offsets \<open>p\<close>, \<open>p - 4\<close>, \<open>p + 4\<close>, \<open>2 * p\<close>, \<open>2 * p + 4\<close> and
  \<open>2 * p - 4\<close>. Four of the offsets, not three, sit exactly 4 bytes before or after a
  page boundary: \<open>p - 4\<close>, \<open>p + 4\<close>, \<open>2 * p + 4\<close> and \<open>2 * p - 4\<close>.
\<close>

theorem init_test_cases_pages:
  assumes "4 < getSystemPageSize env" and "2 * getSystemPageSize env + 4 < 2 ^ 32"
  shows "length (init_test_cases env) = 7
       \<and> map (\<lambda>t. (unat (stride t), unat (offset t))) (init_test_cases env)
           = [(2, 0),
              (getSystemPageSize env, getSystemPageSize env),
              (getSystemPageSize env, getSystemPageSize env - 4),
              (getSystemPageSize env, getSystemPageSize env + 4),
              (getSystemPageSize env, 2 * getSystemPageSize env),
              (getSystemPageSize env, 2 * getSystemPageSize env + 4),
              (getSystemPageSize env, 2 * getSystemPageSize env - 4)]
       \<and> offsets_four_from_boundary env
           = [getSystemPageSize env - 4, getSystemPageSize env + 4,
              2 * getSystemPageSize env + 4, 2 * getSystemPageSize env - 4]"
proof -
  define p where "p = getSystemPageSize env"
  have p: "4 < p" "4 \<le> p" "2 * p + 4 < 2 ^ 32"
    using assms by (simp_all add: p_def)
  have m1: "(p + 4) mod p = 4"
    using p(1) by simp
  have m2: "(p - 4) mod p = p - 4"
    using p(1) by simp
  have m3: "(2 * p + 4) mod p = 4"
    using p(1) by (simp add: mod_simps)
  have e: "2 * p - 4 = p + (p - 4)"
    using p(1) by arith
  have "(p + (p - 4)) mod p = (p - 4) mod p"
    by (rule mod_add_self1)
  also have "\<dots> = p - 4"
    using p(1) by (intro mod_less) arith
  finally have "(p + (p - 4)) mod p = p - 4" .
  then have m4: "(2 * p - 4) mod p = p - 4"
    unfolding e .
  have m5: "(2 * p - 4 + 4) mod p = 0" "(p - 4 + 4) mod p = 0"
    using p(1) by simp_all
  have cases: "map (\<lambda>t. (unat (stride t), unat (offset t))) (init_test_cases env)
      = [(2, 0), (p, p), (p, p - 4), (p, p + 4), (p, 2 * p), (p, 2 * p + 4), (p, 2 * p - 4)]"
    using unat_page [OF p(3)] unat_page_minus [OF p(2) p(3)]
    by (simp add: init_test_cases_def Let_def p_def)
  then have "map (\<lambda>t. unat (offset t)) (init_test_cases env)
      = [0, p, p - 4, p + 4, 2 * p, 2 * p + 4, 2 * p - 4]"
    using unat_page [OF p(3)] unat_page_minus [OF p(2) p(3)]
    by (simp add: init_test_cases_def Let_def p_def)
  then have "offsets_four_from_boundary env = [p - 4, p + 4, 2 * p + 4, 2 * p - 4]"
    using p(1) m1 m2 m3 m4 m5
    by (simp add: offsets_four_from_boundary_def four_from_page_boundary_def p_def [symmetric])
  with cases show ?thesis
    by (simp add: p_def init_test_cases_def Let_def)
qed

text \<open>The theorem at the page size 4096.\<close>

theorem init_test_cases_pages_witness:
  "4 < getSystemPageSize conforming \<and> 2 * getSystemPageSize conforming + 4 < 2 ^ 32
   \<and> map (\<lambda>t. (unat (stride t), unat (offset t))) (init_test_cases conforming)
       = [(2, 0), (4096, 4096), (4096, 4092), (4096, 4100), (4096, 8192), (4096, 8196), (4096, 8188)]
   \<and> offsets_four_from_boundary conforming = [4092, 4100, 8196, 8188]"
proof -
  have h: "4 < getSystemPageSize conforming" "2 * getSystemPageSize conforming + 4 < 2 ^ 32"
    by (simp_all add: conforming_def)
  have p: "getSystemPageSize conforming = 4096"
    by (simp add: conforming_def)
  show ?thesis
    using h init_test_cases_pages [OF h] by (simp add: p)
qed

text \<open>
  C4 as stated says that three offsets sit 4 bytes from a page boundary; with the page
  size 4096 there are four.
\<close>

theorem three_offsets_counterexample:
  "length (offsets_four_from_boundary conforming) \<noteq> 3"
  by (simp add: offsets_four_from_boundary_def four_from_page_boundary_def
      init_test_cases_def conforming_def)

section \<open>The loops of the probes\<close>

lemma word_inc_le_iff:
  fixes i j bound :: "32 word"
  assumes "i < bound"
  shows "i + 1 \<le> j \<longleftrightarrow> i < j"
proof -
  have "i \<noteq> - 1"
    using assms by (metis word_order.extremum_strict)
  then show ?thesis
    by (simp add: inc_less_eq_iff)
qed

text \<open>
  A loop whose body is defined on every index from \<open>start\<close> up to the bound, none of them
  \<^verbatim>\<open>INT_MAX\<close>, either runs to the bound with no early return, or returns at the
  first index whose body returns.
\<close>

lemma for_loop_result:
  assumes "\<forall>j. i \<le> j \<and> j < bound \<longrightarrow> (\<exists>r. body j = Inr r) \<and> j \<noteq> INT_MAX"
  shows "(for_loop body bound i = Inr None \<and> (\<forall>j. i \<le> j \<and> j < bound \<longrightarrow> body j = Inr None))
       \<or> (\<exists>k r. i \<le> k \<and> k < bound \<and> body k = Inr (Some r)
              \<and> (\<forall>j. i \<le> j \<and> j < k \<longrightarrow> body j = Inr None)
              \<and> for_loop body bound i = Inr (Some r))"
  using assms
proof (induction body bound i rule: for_loop.induct)
  case (1 body bound i)
  show ?case
  proof (cases "i < bound")
    case False
    then have "\<forall>j. \<not> (i \<le> j \<and> j < bound)"
      by auto
    moreover from False have "for_loop body bound i = Inr None"
      by (subst for_loop.simps) simp
    ultimately show ?thesis
      by blast
  next
    case True
    with "1.prems" obtain r where r: "body i = Inr r" and nmax: "i \<noteq> INT_MAX"
      by blast
    show ?thesis
    proof (cases r)
      case (Some x)
      with True r have "for_loop body bound i = Inr (Some x)"
        by (subst for_loop.simps) simp
      with True r Some show ?thesis
        by (intro disjI2 exI [of _ i] exI [of _ x]) auto
    next
      case None
      with True r nmax have step: "for_loop body bound i = for_loop body bound (i + 1)"
        by (subst for_loop.simps) simp
      have le: "\<And>j. i + 1 \<le> j \<longleftrightarrow> i < j"
        using True by (rule word_inc_le_iff)
      have "\<forall>j. i + 1 \<le> j \<and> j < bound \<longrightarrow> (\<exists>r. body j = Inr r) \<and> j \<noteq> INT_MAX"
      proof (intro allI impI)
        fix j assume "i + 1 \<le> j \<and> j < bound"
        then have "i \<le> j \<and> j < bound"
          using le [of j] by (auto intro: order.strict_implies_order)
        with "1.prems" show "(\<exists>r. body j = Inr r) \<and> j \<noteq> INT_MAX"
          by blast
      qed
      from "1.IH" [OF True r None nmax this]
      show ?thesis
      proof
        assume a: "for_loop body bound (i + 1) = Inr None
            \<and> (\<forall>j. i + 1 \<le> j \<and> j < bound \<longrightarrow> body j = Inr None)"
        have "\<forall>j. i \<le> j \<and> j < bound \<longrightarrow> body j = Inr None"
        proof (intro allI impI)
          fix j assume j: "i \<le> j \<and> j < bound"
          show "body j = Inr None"
          proof (cases "j = i")
            case True
            with r None show ?thesis by simp
          next
            case False
            with j have "i < j" by (simp add: order.strict_iff_order)
            with a j le show ?thesis by blast
          qed
        qed
        with a step show ?thesis by simp
      next
        assume "\<exists>k r. i + 1 \<le> k \<and> k < bound \<and> body k = Inr (Some r)
            \<and> (\<forall>j. i + 1 \<le> j \<and> j < k \<longrightarrow> body j = Inr None)
            \<and> for_loop body bound (i + 1) = Inr (Some r)"
        then obtain k x where k: "i + 1 \<le> k" "k < bound" "body k = Inr (Some x)"
            "\<forall>j. i + 1 \<le> j \<and> j < k \<longrightarrow> body j = Inr None"
            "for_loop body bound (i + 1) = Inr (Some x)"
          by blast
        have ik: "i < k" using k(1) le by blast
        have "\<forall>j. i \<le> j \<and> j < k \<longrightarrow> body j = Inr None"
        proof (intro allI impI)
          fix j assume j: "i \<le> j \<and> j < k"
          show "body j = Inr None"
          proof (cases "j = i")
            case True
            with r None show ?thesis by simp
          next
            case False
            with j have "i < j" by (simp add: order.strict_iff_order)
            with k(4) j le show ?thesis by blast
          qed
        qed
        with k ik step show ?thesis
          by (intro disjI2 exI [of _ k] exI [of _ x]) auto
      qed
    qed
  qed
qed

lemma finish_simps:
  "finish (Inr None) rest = rest"
  "finish (Inr (Some x)) rest = Inr x"
  "finish (Inl f) rest = Inl f"
  by (simp_all add: finish_def)

text \<open>
  The result of \<^verbatim>\<open>probe_value_in_range\<close>, for a stride that is not 0 and an array that
  can be read on both ranges. The ranges are those of the loops: \<^verbatim>\<open>i\<close> is compared as
  an \<^verbatim>\<open>unsigned int\<close> with bounds computed in \<^verbatim>\<open>uint32_t\<close>.
\<close>

lemma probe_value_in_range_result:
  assumes stride: "stride one \<noteq> 0"
    and readable:
      "\<forall>i. i < values_count - offset one div 4
            \<or> (start_bound - offset one div 4 \<le> i \<and> i < end_bound - offset one div 4)
          \<longrightarrow> data (sint i) \<noteq> None \<and> i \<noteq> INT_MAX"
  shows "(probe_value_in_range data one start_bound end_bound value = Inr (True, [])
          \<longleftrightarrow> (\<forall>i. i < values_count - offset one div 4 \<longrightarrow> first_range_ok data one i)
            \<and> (\<forall>i. start_bound - offset one div 4 \<le> i \<and> i < end_bound - offset one div 4
                   \<longrightarrow> second_range_ok data one value i))
       \<and> (probe_value_in_range data one start_bound end_bound value \<noteq> Inr (True, [])
          \<longrightarrow> (\<exists>k d. data (sint k) = Some d
                \<and> probe_value_in_range data one start_bound end_bound value
                    = Inr (False, [Printf ''Probe mismatch in probe_value_in_range data[%i]: %i\<newline>''
                                     [Arg_int (sint k), Arg_int (sint d)]])
                \<and> ((k < values_count - offset one div 4 \<and> \<not> first_range_ok data one k
                      \<and> (\<forall>j. j < k \<longrightarrow> first_range_ok data one j))
                   \<or> ((\<forall>i. i < values_count - offset one div 4 \<longrightarrow> first_range_ok data one i)
                      \<and> start_bound - offset one div 4 \<le> k \<and> k < end_bound - offset one div 4
                      \<and> \<not> second_range_ok data one value k
                      \<and> (\<forall>j. start_bound - offset one div 4 \<le> j \<and> j < k
                             \<longrightarrow> second_range_ok data one value j)))))"
proof -
  define shift where "shift = offset one div 4"
  define fmt where "fmt = ''Probe mismatch in probe_value_in_range data[%i]: %i\<newline>''"
  define body1 :: "int32 \<Rightarrow> fault + (bool \<times> event list) option" where
    "body1 = (\<lambda>i. let shifted_index = i + offset one div 4 in
                if stride one = 0 then Inl Division_by_zero
                else if shifted_index mod stride one \<noteq> 0
                then read data i (\<lambda>d.
                       if d \<noteq> fill_value_b
                       then Inr (Some (mismatch fmt i d))
                       else Inr None)
                else Inr None)"
  define body2 :: "int32 \<Rightarrow> fault + (bool \<times> event list) option" where
    "body2 = (\<lambda>i. let shifted_index = i + offset one div 4 in
                   if stride one = 0 then Inl Division_by_zero
                   else if shifted_index mod stride one = 0
                   then read data i (\<lambda>d.
                          if d \<noteq> value
                          then Inr (Some (mismatch fmt i d))
                          else Inr None)
                   else Inr None)"
  define b1 where "b1 = values_count - offset one div 4"
  define a2 where "a2 = start_bound - offset one div 4"
  define b2 where "b2 = end_bound - offset one div 4"
  let ?probe = "probe_value_in_range data one start_bound end_bound value"
  have probe: "?probe = finish (for_loop body1 b1 0) (finish (for_loop body2 b2 a2) (Inr (True, [])))"
    unfolding probe_value_in_range_def body1_def body2_def b1_def a2_def b2_def fmt_def ..
  have rd: "\<And>i. i < b1 \<or> (a2 \<le> i \<and> i < b2) \<Longrightarrow> \<exists>d. data (sint i) = Some d"
    using readable by (auto simp: b1_def a2_def b2_def)
  have nmax: "\<And>i. i < b1 \<or> (a2 \<le> i \<and> i < b2) \<Longrightarrow> i \<noteq> INT_MAX"
    using readable by (auto simp: b1_def a2_def b2_def)
  have body1_None: "body1 i = Inr None \<longleftrightarrow> first_range_ok data one i" if "i < b1" for i
    using rd [of i] that stride
    by (auto simp: body1_def first_range_ok_def read_def Let_def mismatch_def split: if_splits)
  have body1_Some: "body1 i = Inr (Some r) \<longleftrightarrow>
      \<not> first_range_ok data one i \<and> (\<exists>d. data (sint i) = Some d \<and> r = mismatch fmt i d)"
    if "i < b1" for i r
    using rd [of i] that stride
    by (auto simp: body1_def first_range_ok_def read_def Let_def split: if_splits)
  have body2_None: "body2 i = Inr None \<longleftrightarrow> second_range_ok data one value i"
    if "a2 \<le> i \<and> i < b2" for i
    using rd [of i] that stride
    by (auto simp: body2_def second_range_ok_def read_def Let_def mismatch_def split: if_splits)
  have body2_Some: "body2 i = Inr (Some r) \<longleftrightarrow>
      \<not> second_range_ok data one value i \<and> (\<exists>d. data (sint i) = Some d \<and> r = mismatch fmt i d)"
    if "a2 \<le> i \<and> i < b2" for i r
    using rd [of i] that stride
    by (auto simp: body2_def second_range_ok_def read_def Let_def split: if_splits)
  have pre1: "\<forall>j. 0 \<le> j \<and> j < b1 \<longrightarrow> (\<exists>r. body1 j = Inr r) \<and> j \<noteq> INT_MAX"
  proof (intro allI impI)
    fix j assume j: "0 \<le> j \<and> j < b1"
    then obtain d where "data (sint j) = Some d"
      using rd [of j] by auto
    with j have "body1 j = Inr None \<or> (\<exists>r. body1 j = Inr (Some r))"
      using body1_None [of j] body1_Some [of j "mismatch fmt j d"] by (cases "first_range_ok data one j") auto
    with j nmax [of j] show "(\<exists>r. body1 j = Inr r) \<and> j \<noteq> INT_MAX"
      by auto
  qed
  have pre2: "\<forall>j. a2 \<le> j \<and> j < b2 \<longrightarrow> (\<exists>r. body2 j = Inr r) \<and> j \<noteq> INT_MAX"
  proof (intro allI impI)
    fix j assume j: "a2 \<le> j \<and> j < b2"
    then obtain d where "data (sint j) = Some d"
      using rd [of j] by auto
    with j have "body2 j = Inr None \<or> (\<exists>r. body2 j = Inr (Some r))"
      using body2_None [of j] body2_Some [of j "mismatch fmt j d"] by (cases "second_range_ok data one value j") auto
    with j nmax [of j] show "(\<exists>r. body2 j = Inr r) \<and> j \<noteq> INT_MAX"
      by auto
  qed
  let ?P1 = "\<forall>i. i < b1 \<longrightarrow> first_range_ok data one i"
  let ?P2 = "\<forall>i. a2 \<le> i \<and> i < b2 \<longrightarrow> second_range_ok data one value i"
  let ?fail = "\<lambda>k d. data (sint k) = Some d
      \<and> ?probe = Inr (False, [Printf fmt [Arg_int (sint k), Arg_int (sint d)]])
      \<and> ((k < b1 \<and> \<not> first_range_ok data one k \<and> (\<forall>j. j < k \<longrightarrow> first_range_ok data one j))
         \<or> (?P1 \<and> a2 \<le> k \<and> k < b2 \<and> \<not> second_range_ok data one value k
            \<and> (\<forall>j. a2 \<le> j \<and> j < k \<longrightarrow> second_range_ok data one value j)))"
  have main: "(?probe = Inr (True, []) \<and> ?P1 \<and> ?P2) \<or> (\<not> (?P1 \<and> ?P2) \<and> (\<exists>k d. ?fail k d))"
    using for_loop_result [OF pre1]
  proof
    assume "\<exists>k r. 0 \<le> k \<and> k < b1 \<and> body1 k = Inr (Some r)
        \<and> (\<forall>j. 0 \<le> j \<and> j < k \<longrightarrow> body1 j = Inr None)
        \<and> for_loop body1 b1 0 = Inr (Some r)"
    then obtain k r where k: "k < b1" "body1 k = Inr (Some r)"
        "\<forall>j. j < k \<longrightarrow> body1 j = Inr None" "for_loop body1 b1 0 = Inr (Some r)"
      by auto
    from k(1,2) obtain d where d: "\<not> first_range_ok data one k" "data (sint k) = Some d"
        "r = mismatch fmt k d"
      using body1_Some [of k r] by blast
    have "\<forall>j. j < k \<longrightarrow> first_range_ok data one j"
    proof (intro allI impI)
      fix j assume "j < k"
      with k(1,3) body1_None [of j] show "first_range_ok data one j"
        by (meson order.strict_trans)
    qed
    with k d have "?fail k d"
      by (simp add: probe finish_simps mismatch_def)
    moreover have "\<not> ?P1"
      using k(1) d(1) by blast
    ultimately show ?thesis
      by blast
  next
    assume l1: "for_loop body1 b1 0 = Inr None \<and> (\<forall>j. 0 \<le> j \<and> j < b1 \<longrightarrow> body1 j = Inr None)"
    then have P1: ?P1
      using body1_None by auto
    from for_loop_result [OF pre2] show ?thesis
    proof
      assume "for_loop body2 b2 a2 = Inr None \<and> (\<forall>j. a2 \<le> j \<and> j < b2 \<longrightarrow> body2 j = Inr None)"
      then have "?probe = Inr (True, [])" and ?P2
        using l1 body2_None by (auto simp: probe finish_simps)
      with P1 show ?thesis
        by blast
    next
      assume "\<exists>k r. a2 \<le> k \<and> k < b2 \<and> body2 k = Inr (Some r)
          \<and> (\<forall>j. a2 \<le> j \<and> j < k \<longrightarrow> body2 j = Inr None)
          \<and> for_loop body2 b2 a2 = Inr (Some r)"
      then obtain k r where k: "a2 \<le> k" "k < b2" "body2 k = Inr (Some r)"
          "\<forall>j. a2 \<le> j \<and> j < k \<longrightarrow> body2 j = Inr None" "for_loop body2 b2 a2 = Inr (Some r)"
        by auto
      from k(1,2,3) obtain d where d: "\<not> second_range_ok data one value k" "data (sint k) = Some d"
          "r = mismatch fmt k d"
        using body2_Some [of k r] by blast
      have "\<forall>j. a2 \<le> j \<and> j < k \<longrightarrow> second_range_ok data one value j"
      proof (intro allI impI)
        fix j assume "a2 \<le> j \<and> j < k"
        with k(2,4) body2_None [of j] show "second_range_ok data one value j"
          by (meson order.strict_trans)
      qed
      with k d P1 l1 have "?fail k d"
        by (simp add: probe finish_simps mismatch_def)
      moreover have "\<not> ?P2"
        using k(1,2) d(1) by blast
      ultimately show ?thesis
        by blast
    qed
  qed
  have "?fail k d \<Longrightarrow> ?probe \<noteq> Inr (True, [])" for k d
    by auto
  with main show ?thesis
    unfolding b1_def a2_def b2_def fmt_def by blast
qed

text \<open>
  C6, with the ranges of the code. \<^verbatim>\<open>probe_value_in_range(data, one, start_bound, end_bound, value)\<close>
  returns true
  exactly when \<^verbatim>\<open>data[i]\<close> is \<^verbatim>\<open>fill_value_b\<close> for every \<open>i\<close> below
  \<^verbatim>\<open>values_count - one.offset/4\<close> whose shifted index \<^verbatim>\<open>i + one.offset/4\<close> is not a
  multiple of the stride, and \<^verbatim>\<open>data[i]\<close> is \<^verbatim>\<open>value\<close> for every \<open>i\<close> from
  \<^verbatim>\<open>start_bound - one.offset/4\<close> up to, not including, \<^verbatim>\<open>end_bound - one.offset/4\<close>
  whose shifted index is a multiple of the stride. Otherwise it returns false, and it has
  printed to standard output one line, the index and the value of the first violation:
  the first of the first range, or, the first range being in order, the first of the
  second. The bounds and the comparisons are the 32-bit unsigned ones of the code.
\<close>

theorem probe_value_in_range_iff:
  assumes stride: "stride one \<noteq> 0"
    and readable:
      "\<forall>i. i < values_count - offset one div 4
            \<or> (start_bound - offset one div 4 \<le> i \<and> i < end_bound - offset one div 4)
          \<longrightarrow> data (sint i) \<noteq> None \<and> i \<noteq> INT_MAX"
  shows "(probe_value_in_range data one start_bound end_bound value = Inr (True, [])
          \<longleftrightarrow> (\<forall>i. i < values_count - offset one div 4 \<longrightarrow> first_range_ok data one i)
            \<and> (\<forall>i. start_bound - offset one div 4 \<le> i \<and> i < end_bound - offset one div 4
                   \<longrightarrow> second_range_ok data one value i))
       \<and> (probe_value_in_range data one start_bound end_bound value \<noteq> Inr (True, [])
          \<longrightarrow> (\<exists>k d. data (sint k) = Some d
                \<and> probe_value_in_range data one start_bound end_bound value
                    = Inr (False, [Printf ''Probe mismatch in probe_value_in_range data[%i]: %i\<newline>''
                                     [Arg_int (sint k), Arg_int (sint d)]])
                \<and> ((k < values_count - offset one div 4 \<and> \<not> first_range_ok data one k
                      \<and> (\<forall>j. j < k \<longrightarrow> first_range_ok data one j))
                   \<or> ((\<forall>i. i < values_count - offset one div 4 \<longrightarrow> first_range_ok data one i)
                      \<and> start_bound - offset one div 4 \<le> k \<and> k < end_bound - offset one div 4
                      \<and> \<not> second_range_ok data one value k
                      \<and> (\<forall>j. start_bound - offset one div 4 \<le> j \<and> j < k
                             \<longrightarrow> second_range_ok data one value j)))))"
  using stride readable by (rule probe_value_in_range_result)

text \<open>
  For the first test case and an array that holds \<^verbatim>\<open>fill_value_b\<close> everywhere, the
  probe of the empty range \<open>[0, 0)\<close> returns true, and the probe of \<open>[0, one_third)\<close>
  for \<^verbatim>\<open>modifed_value\<close> does not.
\<close>

theorem probe_value_in_range_iff_witness:
  "stride first_case \<noteq> 0
   \<and> probe_value_in_range all_b first_case 0 0 modifed_value = Inr (True, [])
   \<and> probe_value_in_range all_b first_case 0 one_third modifed_value \<noteq> Inr (True, [])"
proof -
  have s: "stride first_case \<noteq> 0"
    by (simp add: first_case_def)
  have r: "\<forall>i. i < values_count - offset first_case div 4
            \<or> (0 - offset first_case div 4 \<le> i \<and> i < e - offset first_case div 4)
          \<longrightarrow> all_b (sint i) \<noteq> None \<and> i \<noteq> INT_MAX" if "e \<le> 15000" for e :: uint32
    using that by (auto simp: first_case_def values_count_def all_b_def INT_MAX_def word_less_nat_alt word_le_nat_alt)
  have "\<not> second_range_ok all_b first_case modifed_value 0"
    by (simp add: second_range_ok_def first_case_def all_b_def fill_value_b_def modifed_value_def)
  then have "\<not> (\<forall>i. 0 - offset first_case div 4 \<le> i \<and> i < one_third - offset first_case div 4
                   \<longrightarrow> second_range_ok all_b first_case modifed_value i)"
    by (auto simp: first_case_def one_third_def values_count_def intro!: exI [of _ 0])
  moreover have "\<forall>i. i < values_count - offset first_case div 4 \<longrightarrow> first_range_ok all_b first_case i"
    by (simp add: first_range_ok_def all_b_def)
  moreover have "\<forall>i. 0 - offset first_case div 4 \<le> i \<and> i < 0 - offset first_case div 4
                   \<longrightarrow> second_range_ok all_b first_case modifed_value i"
    by (simp add: first_case_def)
  ultimately show ?thesis
    using s probe_value_in_range_iff [OF s r [of 0], of modifed_value]
      probe_value_in_range_iff [OF s r [of one_third], of modifed_value]
    by (simp add: one_third_def values_count_def)
qed

text \<open>
  When \<^verbatim>\<open>start_bound\<close> is below the shift \<^verbatim>\<open>one.offset/4\<close> and \<^verbatim>\<open>end_bound\<close> is not,
  the difference \<^verbatim>\<open>start_bound - one.offset/4\<close> wraps around and the second loop has
  no round.
\<close>

lemma second_range_empty:
  fixes start_bound end_bound shift i :: uint32
  assumes "start_bound < shift" and "shift \<le> end_bound"
  shows "\<not> (start_bound - shift \<le> i \<and> i < end_bound - shift)"
proof -
  have a: "unat (start_bound - shift) = 2 ^ 32 + unat start_bound - unat shift"
    using assms(1) unsigned_less [of start_bound, where ?'a = nat] unsigned_less [of shift, where ?'a = nat]
    by (simp add: unat_sub_if' word_less_nat_alt)
  have b: "unat (end_bound - shift) = unat end_bound - unat shift"
    using assms(2) by (simp add: unat_sub word_le_nat_alt)
  have "unat end_bound < 2 ^ 32"
    using unsigned_less [of end_bound, where ?'a = nat] by simp
  then show ?thesis
    using assms a b unfolding word_less_nat_alt word_le_nat_alt by linarith
qed

text \<open>
  With the ranges read as intervals of integers the equivalence fails. For the second
  test case, of offset 4096, and an array that holds \<^verbatim>\<open>fill_value_b\<close> everywhere, the
  probe of \<open>[0, one_third)\<close> for \<^verbatim>\<open>modifed_value\<close> returns true; index 3072, of
  shifted index 4096, is in \<open>[-1024, 13976)\<close> and does not hold \<^verbatim>\<open>modifed_value\<close>.
\<close>

theorem empty_second_range_counterexample:
  "probe_value_in_range all_b second_case 0 one_third modifed_value = Inr (True, [])
   \<and> \<not> integer_ranges_ok all_b second_case 0 one_third modifed_value"
proof -
  have s: "stride second_case \<noteq> 0"
    by (simp add: second_case_def)
  have e: "\<not> (0 - offset second_case div 4 \<le> i \<and> i < one_third - offset second_case div 4)" for i
    by (rule second_range_empty) (simp_all add: second_case_def one_third_def values_count_def word_less_nat_alt word_le_nat_alt)
  have r: "\<forall>i. i < values_count - offset second_case div 4
            \<or> (0 - offset second_case div 4 \<le> i \<and> i < one_third - offset second_case div 4)
          \<longrightarrow> all_b (sint i) \<noteq> None \<and> i \<noteq> INT_MAX"
    using e by (auto simp: second_case_def values_count_def all_b_def INT_MAX_def word_less_nat_alt)
  have f: "\<forall>i. i < values_count - offset second_case div 4 \<longrightarrow> first_range_ok all_b second_case i"
    by (simp add: first_range_ok_def all_b_def)
  have "probe_value_in_range all_b second_case 0 one_third modifed_value = Inr (True, [])"
    using probe_value_in_range_result [OF s r, of modifed_value] f e by blast
  moreover have "\<not> integer_ranges_ok all_b second_case 0 one_third modifed_value"
  proof
    assume "integer_ranges_ok all_b second_case 0 one_third modifed_value"
    then have "\<forall>i\<in>{uint (0::uint32) - uint (offset second_case) div 4 ..< uint one_third - uint (offset second_case) div 4}.
          uint (stride second_case) dvd i + uint (offset second_case) div 4 \<longrightarrow> all_b i = Some modifed_value"
      unfolding integer_ranges_ok_def by blast
    then have "uint (stride second_case) dvd 3072 + uint (offset second_case) div 4 \<longrightarrow> all_b 3072 = Some modifed_value"
      by (rule bspec) (simp add: second_case_def one_third_def values_count_def)
    then show False
      by (simp add: second_case_def all_b_def fill_value_b_def modifed_value_def)
  qed
  ultimately show ?thesis
    by blast
qed

section \<open>The buffers of a test case\<close>

lemma unat_values_count_4: "unat (values_count * 4) = 180000"
  by (simp add: values_count_def)

lemma unat_mapped_length:
  assumes "unat off \<le> 180000"
  shows "unat (values_count * 4 - off) = 180000 - unat off"
proof -
  have "off \<le> values_count * 4"
    using assms by (simp add: word_le_nat_alt values_count_def)
  then show ?thesis
    by (simp add: unat_sub unat_values_count_4)
qed

lemma ucast_fill_values:
  "(ucast fill_value_a :: byte) = 0x55" "(ucast fill_value_b :: byte) = 0xD7"
  by (simp_all add: fill_value_a_def fill_value_b_def)

lemma load_int_fill_value_a:
  assumes "\<forall>k<4. mem (a + k) = ucast fill_value_a"
  shows "load_int mem a = fill_value_a"
proof -
  have "mem a = 0x55" "mem (a + 1) = 0x55" "mem (a + 2) = 0x55" "mem (a + 3) = 0x55"
    using assms [rule_format, of 0] assms [rule_format, of 1] assms [rule_format, of 2]
      assms [rule_format, of 3] by (simp_all add: ucast_fill_values)
  then show ?thesis
    by (simp add: load_int_def fill_value_a_def)
qed

lemma load_int_fill_value_b:
  assumes "\<forall>k<4. mem (a + k) = ucast fill_value_b"
  shows "load_int mem a = fill_value_b"
proof -
  have "mem a = 0xD7" "mem (a + 1) = 0xD7" "mem (a + 2) = 0xD7" "mem (a + 3) = 0xD7"
    using assms [rule_format, of 0] assms [rule_format, of 1] assms [rule_format, of 2]
      assms [rule_format, of 3] by (simp_all add: ucast_fill_values)
  then show ?thesis
    by (simp add: load_int_def fill_value_b_def)
qed

lemma load_int_bytes:
  "ucast (load_int mem a) = mem a"
  "ucast (drop_bit 8 (load_int mem a)) = mem (a + 1)"
  "ucast (drop_bit 16 (load_int mem a)) = mem (a + 2)"
  "ucast (drop_bit 24 (load_int mem a)) = mem (a + 3)"
  by (rule bit_word_eqI; auto simp: load_int_def bit_simps dest: bit_imp_le_length)+

lemma load_int_fill_value_a_bytes:
  assumes "load_int mem a = fill_value_a" and "k < 4"
  shows "mem (a + k) = ucast fill_value_a"
proof -
  have "mem a = 0x55" "mem (a + 1) = 0x55" "mem (a + 2) = 0x55" "mem (a + 3) = 0x55"
    using load_int_bytes [of mem a, symmetric] assms(1) by (simp_all add: fill_value_a_def)
  moreover from assms(2) have "k = 0 \<or> k = 1 \<or> k = 2 \<or> k = 3"
    by auto
  ultimately show ?thesis
    by (auto simp: ucast_fill_values)
qed

text \<open>
  \<^verbatim>\<open>init_ssbo\<close> takes the next buffer name, gives the buffer \<open>values_count * 4\<close> bytes
  and sets each of them to the low byte of \<^verbatim>\<open>fill_value_a\<close>; \<^verbatim>\<open>map_ssbo\<close> maps the
  buffer from the offset to its end and sets the mapped bytes to the low byte of
  \<^verbatim>\<open>fill_value_b\<close>.
\<close>

lemma init_ssbo_result:
  assumes "glGetError env (glGetError_calls w) = GL_NO_ERROR"
  shows "init_ssbo env w =
      (Return (Suc (buffer_names w)),
       w\<lparr>glGetError_calls := Suc (glGetError_calls w),
         buffer_names := Suc (buffer_names w),
         buffer_size := (buffer_size w)(Suc (buffer_names w) := 180000),
         storage := (storage w)(Suc (buffer_names w) :=
                      memset (storage w (Suc (buffer_names w))) 0 fill_value_a 180000),
         ssbo_binding := Suc (buffer_names w)\<rparr>)"
  using assms
  by (simp add: init_ssbo_def Let_def glMapBufferRange_def memset_mapped_def bind_def
      check_error_def ret_def unat_values_count_4)

lemma map_ssbo_result:
  assumes "buffer_size w ssbo = 180000" and "unat off < 180000"
  shows "map_ssbo ssbo off w =
      (Return \<lparr>buf = ssbo, map_offset = unat off, map_length = 180000 - unat off\<rparr>,
       w\<lparr>storage := (storage w)(ssbo :=
                      memset (storage w ssbo) (unat off) fill_value_b (180000 - unat off)),
         ssbo_binding := ssbo\<rparr>)"
  using assms
  by (simp add: map_ssbo_def Let_def glMapBufferRange_def memset_mapped_def bind_def
      ret_def unat_mapped_length)

section \<open>Rules for runs that return\<close>

lemma tripleI:
  assumes "\<And>w. P w \<Longrightarrow> \<exists>x w'. m w = (Return x, w') \<and> Q x w'"
  shows "triple P m Q"
  using assms by (simp add: triple_def)

lemma tripleD:
  assumes "triple P m Q" and "P w"
  obtains x w' where "m w = (Return x, w')" and "Q x w'"
  using assms unfolding triple_def by blast

lemma triple_bind:
  assumes "triple P m Q" and "\<And>x. triple (Q x) (f x) R"
  shows "triple P (bind m f) R"
proof (rule tripleI)
  fix w assume "P w"
  with assms(1) obtain x w' where m: "m w = (Return x, w')" and q: "Q x w'"
    by (rule tripleD)
  from assms(2) [of x] q obtain y w'' where "f x w' = (Return y, w'')" and "R y w''"
    by (rule tripleD)
  with m show "\<exists>y w''. bind m f w = (Return y, w'') \<and> R y w''"
    by (simp add: bind_def)
qed

lemma test_script_buffers_result:
  assumes off: "unat (offset one) < 180000"
    and errors: "\<forall>k<3. glGetError env (glGetError_calls w + k) = GL_NO_ERROR"
  shows "\<exists>a b c w'. test_script_buffers env one w = (Return (a, b, c), w')
      \<and> ssbo_id a = buffer_names w + 1 \<and> ssbo_id b = buffer_names w + 2
      \<and> ssbo_id c = buffer_names w + 3
      \<and> buffer_names w' = buffer_names w + 3
      \<and> glGetError_calls w' = glGetError_calls w + 3
      \<and> stdout w' = stdout w \<and> stderr w' = stderr w \<and> prog w' = prog w
      \<and> mapped_from one a \<and> mapped_from one b \<and> mapped_from one c
      \<and> filled one w' (ssbo_id a) \<and> filled one w' (ssbo_id b) \<and> filled one w' (ssbo_id c)"
proof -
  have e: "glGetError env (glGetError_calls w) = GL_NO_ERROR"
      "glGetError env (Suc (glGetError_calls w)) = GL_NO_ERROR"
      "glGetError env (Suc (Suc (glGetError_calls w))) = GL_NO_ERROR"
    using errors [rule_format, of 0] errors [rule_format, of 1] errors [rule_format, of 2]
    by simp_all
  show ?thesis
    using off e
    by (simp add: test_script_buffers_def bind_def init_ssbo_result map_ssbo_result ret_def
        mapped_from_def filled_def memset_def)
qed

section \<open>The probes on the buffers of the script\<close>

lemma scan_result:
  fixes data :: "int \<Rightarrow> int32 option"
  defines "body \<equiv> (\<lambda>fmt c i. read data i (\<lambda>d.
                  if d \<noteq> c then Inr (Some (mismatch fmt i d)) else Inr None))"
  assumes readable: "\<forall>i. i < bound \<longrightarrow> data (sint i) \<noteq> None \<and> i \<noteq> INT_MAX"
  shows "(finish (for_loop (body fmt c) bound 0) (Inr (True, [])) = Inr (True, [])
          \<and> (\<forall>i. i < bound \<longrightarrow> data (sint i) = Some c))
       \<or> (\<exists>k d. k < bound \<and> data (sint k) = Some d \<and> d \<noteq> c
              \<and> (\<forall>j. j < k \<longrightarrow> data (sint j) = Some c)
              \<and> finish (for_loop (body fmt c) bound 0) (Inr (True, [])) = Inr (mismatch fmt k d))"
proof -
  have b_None: "body fmt c i = Inr None \<longleftrightarrow> data (sint i) = Some c" if "i < bound" for i
    using readable that by (auto simp: body_def read_def mismatch_def split: option.splits)
  have b_Some: "body fmt c i = Inr (Some r) \<longleftrightarrow>
      (\<exists>d. data (sint i) = Some d \<and> d \<noteq> c \<and> r = mismatch fmt i d)" if "i < bound" for i r
    using readable that by (auto simp: body_def read_def split: option.splits)
  have pre: "\<forall>j. 0 \<le> j \<and> j < bound \<longrightarrow> (\<exists>r. body fmt c j = Inr r) \<and> j \<noteq> INT_MAX"
  proof (intro allI impI)
    fix j assume j: "0 \<le> j \<and> j < bound"
    then obtain d where "data (sint j) = Some d"
      using readable by auto
    with j have "body fmt c j = Inr None \<or> (\<exists>r. body fmt c j = Inr (Some r))"
      using b_None [of j] b_Some [of j "mismatch fmt j d"] by (cases "d = c") auto
    with j readable show "(\<exists>r. body fmt c j = Inr r) \<and> j \<noteq> INT_MAX"
      by auto
  qed
  from for_loop_result [OF pre] show ?thesis
  proof
    assume "for_loop (body fmt c) bound 0 = Inr None
        \<and> (\<forall>j. 0 \<le> j \<and> j < bound \<longrightarrow> body fmt c j = Inr None)"
    then show ?thesis
      using b_None by (auto simp: finish_simps)
  next
    assume "\<exists>k r. 0 \<le> k \<and> k < bound \<and> body fmt c k = Inr (Some r)
        \<and> (\<forall>j. 0 \<le> j \<and> j < k \<longrightarrow> body fmt c j = Inr None)
        \<and> for_loop (body fmt c) bound 0 = Inr (Some r)"
    then obtain k r where k: "k < bound" "body fmt c k = Inr (Some r)"
        "\<forall>j. j < k \<longrightarrow> body fmt c j = Inr None" "for_loop (body fmt c) bound 0 = Inr (Some r)"
      by auto
    from k(1,2) obtain d where d: "data (sint k) = Some d" "d \<noteq> c" "r = mismatch fmt k d"
      using b_Some [of k r] by blast
    have "\<forall>j. j < k \<longrightarrow> data (sint j) = Some c"
    proof (intro allI impI)
      fix j assume "j < k"
      with k(1,3) b_None [of j] show "data (sint j) = Some c"
        by (meson order.strict_trans)
    qed
    with k d show ?thesis
      by (intro disjI2 exI [of _ k] exI [of _ d]) (simp add: finish_simps)
  qed
qed

lemma probe_inital_state_result:
  assumes "\<forall>i. i < values_count - offset one div 4 \<longrightarrow> data (sint i) \<noteq> None \<and> i \<noteq> INT_MAX"
  shows "(probe_inital_state data one = Inr (True, [])
          \<and> (\<forall>i. i < values_count - offset one div 4 \<longrightarrow> data (sint i) = Some fill_value_b))
       \<or> (\<exists>k d. k < values_count - offset one div 4 \<and> data (sint k) = Some d \<and> d \<noteq> fill_value_b
              \<and> (\<forall>j. j < k \<longrightarrow> data (sint j) = Some fill_value_b)
              \<and> probe_inital_state data one
                  = Inr (False, [Printf ''Probe mismatch in inprobe_inital_state data[%i]: %i\<newline>''
                                   [Arg_int (sint k), Arg_int (sint d)]]))"
  using scan_result [OF assms, where fmt = "''Probe mismatch in inprobe_inital_state data[%i]: %i\<newline>''"
      and c = fill_value_b]
  unfolding probe_inital_state_def mismatch_def .

text \<open>
  Indexes of a usable test case: the shift \<open>offset / 4\<close> is at most 15000, so no bound of
  a probe wraps below 0 except \<open>start_bound - offset / 4\<close>, and every index the probes
  read is inside the mapped range.
\<close>

lemma sint_small:
  fixes i :: int32
  assumes "unat i < 2 ^ 31"
  shows "sint i = int (unat i)"
proof -
  have "int (unat i) < int (2 ^ 31)"
    using assms by (simp only: of_nat_less_iff)
  then have "uint i < 2 ^ 31"
    by simp
  moreover have "- (2 ^ 31) \<le> uint i"
    by (rule order_trans [of _ 0]) simp_all
  ultimately have "signed_take_bit 31 (uint i) = uint i"
    by (rule signed_take_bit_int_eq_self [rotated])
  then show ?thesis
    by (simp add: sint_uint)
qed

lemma unat_offset_div_4: "unat (offset one div 4) = unat (offset one) div 4"
  by (simp add: unat_div)

lemma unat_minus_shift:
  fixes e :: uint32
  assumes "unat (offset one) div 4 \<le> unat e"
  shows "unat (e - offset one div 4) = unat e - unat (offset one) div 4"
proof -
  have "offset one div 4 \<le> e"
    using assms by (simp add: word_le_nat_alt unat_offset_div_4)
  then show ?thesis
    by (simp add: unat_sub unat_offset_div_4)
qed

lemma first_range_unat:
  assumes "unat (offset one) \<le> 180000"
  shows "i < values_count - offset one div 4 \<longleftrightarrow> unat i < 45000 - unat (offset one) div 4"
proof -
  have "unat (offset one) div 4 \<le> unat values_count"
    using assms by (simp add: values_count_def)
  then have "unat (values_count - offset one div 4) = 45000 - unat (offset one) div 4"
    by (simp add: unat_minus_shift values_count_def)
  then show ?thesis
    by (simp add: word_less_nat_alt)
qed

lemma second_range_in_first:
  fixes e :: uint32
  assumes "unat (offset one) div 4 \<le> unat e" and "unat e \<le> 45000"
    and "i < e - offset one div 4"
  shows "i < values_count - offset one div 4"
proof -
  have "unat i < unat e - unat (offset one) div 4"
    using assms(1,3) by (simp add: word_less_nat_alt unat_minus_shift)
  moreover have "unat (values_count - offset one div 4) = 45000 - unat (offset one) div 4"
    using assms(1,2) by (simp add: unat_minus_shift values_count_def)
  ultimately show ?thesis
    using assms(2) by (simp add: word_less_nat_alt)
qed

lemma deref_first_range:
  assumes "4 dvd unat (offset one)" and "unat (offset one) \<le> 180000"
    and "i < values_count - offset one div 4"
  shows "deref w \<lparr>buf = ssbo, map_offset = unat (offset one),
                  map_length = 180000 - unat (offset one)\<rparr> (sint i)
           = Some (load_int (storage w ssbo) (unat (offset one) + 4 * unat i))"
    and "i \<noteq> INT_MAX"
proof -
  have i: "unat i < 45000 - unat (offset one) div 4"
    using assms(2,3) by (simp add: first_range_unat)
  then have s: "sint i = int (unat i)"
    by (intro sint_small) simp
  from assms(1) obtain q where q: "unat (offset one) = 4 * q"
    by (auto simp: dvd_def)
  with i assms(2) have "4 * unat i + 4 \<le> 180000 - unat (offset one)"
    by simp
  with s show "deref w \<lparr>buf = ssbo, map_offset = unat (offset one),
                  map_length = 180000 - unat (offset one)\<rparr> (sint i)
      = Some (load_int (storage w ssbo) (unat (offset one) + 4 * unat i))"
    by (simp add: deref_def)
  from i show "i \<noteq> INT_MAX"
    by (auto simp: INT_MAX_def)
qed

lemma deref_prefix:
  assumes "unat (offset one) \<le> 180000" and "i < offset one div 4"
  shows "deref w \<lparr>buf = ssbo, map_offset = 0, map_length = unat (offset one)\<rparr> (sint i)
           = Some (load_int (storage w ssbo) (4 * unat i))"
    and "i \<noteq> INT_MAX"
proof -
  have i: "unat i < unat (offset one) div 4"
    using assms(2) by (simp add: word_less_nat_alt unat_offset_div_4)
  with assms(1) have "unat i < 2 ^ 31"
    by simp
  then have s: "sint i = int (unat i)"
    by (rule sint_small)
  from i have "4 * unat i + 4 \<le> unat (offset one)"
    by simp
  with s show "deref w \<lparr>buf = ssbo, map_offset = 0, map_length = unat (offset one)\<rparr> (sint i)
      = Some (load_int (storage w ssbo) (4 * unat i))"
    by (simp add: deref_def)
  from i assms(1) show "i \<noteq> INT_MAX"
    by (auto simp: INT_MAX_def)
qed

section \<open>The steps of the script\<close>

lemma invariant_and:
  assumes "invariant env one ids I"
  shows "invariant env one ids (\<lambda>w. I w \<and> X)"
  using assms unfolding invariant_def by blast

lemma triple_seq:
  assumes "triple I m (\<lambda>_. I)" and "triple I k R"
  shows "triple I (bind m (\<lambda>_. k)) R"
  using assms(1) by (rule triple_bind) (rule assms(2))

lemma and_pass_last:
  assumes "triple I probe (\<lambda>_. I)"
  shows "triple (\<lambda>w. I w \<and> (pass \<longrightarrow> G)) (and_pass pass probe) (\<lambda>r w. I w \<and> (r \<longrightarrow> G))"
proof (rule tripleI)
  fix w assume w: "I w \<and> (pass \<longrightarrow> G)"
  with assms obtain r w' where "probe w = (Return r, w')" and "I w'"
    unfolding triple_def by blast
  with w show "\<exists>x w'. and_pass pass probe w = (Return x, w') \<and> I w' \<and> (x \<longrightarrow> G)"
    by (simp add: and_pass_def bind_def ret_def)
qed

lemma and_pass_bind:
  assumes "triple I probe (\<lambda>_. I)"
    and "\<And>r. triple (\<lambda>w. I w \<and> (r \<longrightarrow> G)) (k r) R"
  shows "triple (\<lambda>w. I w \<and> (pass \<longrightarrow> G)) (bind (and_pass pass probe) k) R"
  using and_pass_last [OF assms(1)] by (rule triple_bind) (rule assms(2))

lemma and_pass_learn:
  assumes "triple I probe (\<lambda>r w. I w \<and> \<not> r)"
    and "\<And>r. triple (\<lambda>w. I w \<and> (r \<longrightarrow> False)) (k r) R"
  shows "triple I (bind (and_pass pass probe) k) R"
proof (rule triple_bind [where Q = "\<lambda>r w. I w \<and> (r \<longrightarrow> False)"])
  show "triple I (and_pass pass probe) (\<lambda>r w. I w \<and> (r \<longrightarrow> False))"
  proof (rule tripleI)
    fix w assume "I w"
    with assms(1) obtain r w' where "probe w = (Return r, w')" and "I w'" and "\<not> r"
      unfolding triple_def by blast
    then show "\<exists>x w'. and_pass pass probe w = (Return x, w') \<and> I w' \<and> (x \<longrightarrow> False)"
      by (auto simp: and_pass_def bind_def ret_def)
  qed
qed (rule assms(2))

lemma probed_triple:
  assumes "\<And>w. I w \<Longrightarrow> \<exists>r out. p w = Inr (r, out) \<and> R r"
    and "\<And>w out. I w \<Longrightarrow> I (w\<lparr>stdout := stdout w @ out\<rparr>)"
  shows "triple I (probed p) (\<lambda>r w. I w \<and> R r)"
proof (rule tripleI)
  fix w assume w: "I w"
  with assms(1) obtain r out where "p w = Inr (r, out)" and "R r"
    by blast
  with assms(2) [OF w, of out]
  show "\<exists>x w'. probed p w = (Return x, w') \<and> I w' \<and> R x"
    by (simp add: probed_def)
qed

lemma fence_triple: "triple I fence (\<lambda>_. I)"
  by (simp add: fence_def triple_def ret_def)

lemma compute_exec_triple:
  assumes "invariant env one ids I" and "ssbo \<in> ids"
  shows "triple I (compute_exec env ssbo one sb eb v) (\<lambda>_. I)"
proof (rule tripleI)
  fix w assume "I w"
  with assms have "I (snd (compute_exec env ssbo one sb eb v w))"
    unfolding invariant_def by blast
  moreover have "fst (compute_exec env ssbo one sb eb v w) = Return ()"
    by (simp add: compute_exec_def Let_def ret_def)
  ultimately show "\<exists>x w'. compute_exec env ssbo one sb eb v w = (Return x, w') \<and> I w'"
    by (metis prod.collapse)
qed

lemma readable_ranges:
  assumes "usable one" and "mapped_from one b"
    and "unat (offset one) div 4 \<le> unat eb" and "unat eb \<le> 45000"
  shows "\<forall>i. i < values_count - offset one div 4
            \<or> (sb - offset one div 4 \<le> i \<and> i < eb - offset one div 4)
          \<longrightarrow> deref w (data_ptr b) (sint i) \<noteq> None \<and> i \<noteq> INT_MAX"
proof (intro allI impI)
  fix i
  assume "i < values_count - offset one div 4
      \<or> (sb - offset one div 4 \<le> i \<and> i < eb - offset one div 4)"
  then have "i < values_count - offset one div 4"
    using second_range_in_first [OF assms(3,4)] by blast
  moreover have "4 dvd unat (offset one)" "unat (offset one) \<le> 180000"
    using assms(1) by (simp_all add: usable_def)
  ultimately show "deref w (data_ptr b) (sint i) \<noteq> None \<and> i \<noteq> INT_MAX"
    using deref_first_range(1) [where one = one and i = i and w = w and ssbo = "ssbo_id b"]
      deref_first_range(2) [where one = one and i = i] assms(2)
    by (simp add: mapped_from_def)
qed

lemma probe_value_in_range_of_triple:
  assumes "invariant env one ids I" and "usable one" and "mapped_from one b"
    and "unat (offset one) div 4 \<le> unat eb" and "unat eb \<le> 45000"
  shows "triple I (probe_value_in_range_of b one sb eb v) (\<lambda>_. I)"
proof -
  have "\<exists>r out. probe_value_in_range (deref w (data_ptr b)) one sb eb v = Inr (r, out) \<and> True" for w
    using probe_value_in_range_result [OF _ readable_ranges [OF assms(2-5)], of w sb v] assms(2)
    unfolding usable_def by blast
  then have "triple I (probe_value_in_range_of b one sb eb v) (\<lambda>r w. I w \<and> True)"
    unfolding probe_value_in_range_of_def
    using assms(1) by (intro probed_triple) (auto simp: invariant_def)
  then show ?thesis
    by simp
qed

lemma probe_inital_state_of_triple:
  assumes "invariant env one ids I" and "usable one" and "mapped_from one b"
  shows "triple I (probe_inital_state_of b one) (\<lambda>_. I)"
proof -
  have "unat (offset one) \<le> 60000"
    using assms(2) by (simp add: usable_def)
  then have "unat (offset one) div 4 \<le> 45000"
    by arith
  then have "unat (offset one) div 4 \<le> unat (45000 :: uint32)"
    by simp
  from readable_ranges [OF assms(2,3) this, of 0]
  have "\<forall>i. i < values_count - offset one div 4
      \<longrightarrow> deref w (data_ptr b) (sint i) \<noteq> None \<and> i \<noteq> INT_MAX" for w
    by simp
  then have "\<exists>r out. probe_inital_state (deref w (data_ptr b)) one = Inr (r, out) \<and> True" for w
    using probe_inital_state_result [of one "deref w (data_ptr b)"] by blast
  then have "triple I (probe_inital_state_of b one) (\<lambda>r w. I w \<and> True)"
    unfolding probe_inital_state_of_def
    using assms(1) by (intro probed_triple) (auto simp: invariant_def)
  then show ?thesis
    by simp
qed

lemma probe_offseted_result:
  assumes size: "buffer_size w ssbo = 180000" and off: "unat (offset one) \<le> 180000"
  shows "\<exists>r out. probe_offseted_part_of_ssbo ssbo one w
            = (Return r, w\<lparr>stdout := stdout w @ out,
                           ssbo_binding := (if offset one = 0 then ssbo_binding w else ssbo)\<rparr>)
          \<and> ((\<forall>a<unat (offset one). storage w ssbo a = ucast fill_value_a) \<longrightarrow> r \<and> out = [])"
proof (cases "offset one = 0")
  case True
  then show ?thesis
    by (intro exI [of _ True] exI [of _ "[]"]) (simp add: probe_offseted_part_of_ssbo_def ret_def)
next
  case False
  then have nz: "unat (offset one) \<noteq> 0"
    by (simp add: unat_eq_zero)
  define w1 where "w1 = w\<lparr>ssbo_binding := ssbo\<rparr>"
  define m where "m = \<lparr>buf = ssbo, map_offset = 0, map_length = unat (offset one)\<rparr>"
  define fmt where "fmt = ''Probe mismatch in probe_offseted_part_of_ssbo data[%i]: %i\<newline>''"
  define scan where "scan = finish
      (for_loop
         (\<lambda>i. read (deref w1 m) i (\<lambda>d.
                 if d \<noteq> fill_value_a then Inr (Some (mismatch fmt i d)) else Inr None))
         (offset one div 4) 0)
      (Inr (True, []))"
  have map: "glMapBufferRange w1 0 (unat (offset one)) = m"
    using size off nz by (simp add: glMapBufferRange_def w1_def m_def)
  have probe: "probe_offseted_part_of_ssbo ssbo one w = probed (\<lambda>_. scan) w1"
    using False map
    unfolding probe_offseted_part_of_ssbo_def scan_def fmt_def w1_def [symmetric]
    by (simp add: Let_def)
  have rd: "deref w1 m (sint i) = Some (load_int (storage w ssbo) (4 * unat i))"
      "i \<noteq> INT_MAX" if "i < offset one div 4" for i
    using deref_prefix(1) [OF off that, where w = w1 and ssbo = ssbo] deref_prefix(2) [OF off that]
    by (simp_all add: m_def w1_def)
  then have "\<forall>i. i < offset one div 4 \<longrightarrow> deref w1 m (sint i) \<noteq> None \<and> i \<noteq> INT_MAX"
    by simp
  from scan_result [OF this, where fmt = fmt and c = fill_value_a]
  have res: "(scan = Inr (True, []))
      \<or> (\<exists>k d. k < offset one div 4 \<and> deref w1 m (sint k) = Some d \<and> d \<noteq> fill_value_a
             \<and> scan = Inr (mismatch fmt k d))"
    unfolding scan_def by blast
  have all_a: "scan = Inr (True, [])" if a: "\<forall>a<unat (offset one). storage w ssbo a = ucast fill_value_a"
  proof -
    have "deref w1 m (sint k) = Some fill_value_a" if k: "k < offset one div 4" for k
    proof -
      have "unat k < unat (offset one) div 4"
        using k by (simp add: word_less_nat_alt unat_offset_div_4)
      then have "\<forall>j<4. storage w ssbo (4 * unat k + j) = ucast fill_value_a"
        using a by auto
      then show ?thesis
        using rd(1) [OF k] by (simp add: load_int_fill_value_a)
    qed
    with res show ?thesis
      by auto
  qed
  from res show ?thesis
  proof
    assume "scan = Inr (True, [])"
    then show ?thesis
      using False
      by (intro exI [of _ True] exI [of _ "[]"]) (simp add: probe probed_def w1_def)
  next
    assume "\<exists>k d. k < offset one div 4 \<and> deref w1 m (sint k) = Some d \<and> d \<noteq> fill_value_a
        \<and> scan = Inr (mismatch fmt k d)"
    then obtain k d where s: "scan = Inr (mismatch fmt k d)"
      by blast
    then have "\<not> (\<forall>a<unat (offset one). storage w ssbo a = ucast fill_value_a)"
      using all_a by (auto simp: mismatch_def)
    with s show ?thesis
      using False
      by (intro exI [of _ False] exI [of _ "snd (mismatch fmt k d)"])
        (simp add: probe probed_def w1_def mismatch_def)
  qed
qed

text \<open>
  The probe of the prefix reads every byte of the elements below \<open>offset / 4\<close>: it does
  not return true unless each of them holds the byte of \<^verbatim>\<open>fill_value_a\<close>.
\<close>

lemma probe_offseted_true:
  assumes size: "buffer_size w ssbo = 180000" and off: "unat (offset one) \<le> 180000"
    and true: "fst (probe_offseted_part_of_ssbo ssbo one w) = Return True"
  shows "\<forall>a<4 * (unat (offset one) div 4). storage w ssbo a = ucast fill_value_a"
proof (cases "offset one = 0")
  case True
  then show ?thesis
    by simp
next
  case False
  then have nz: "unat (offset one) \<noteq> 0"
    by (simp add: unat_eq_zero)
  define w1 where "w1 = w\<lparr>ssbo_binding := ssbo\<rparr>"
  define m where "m = \<lparr>buf = ssbo, map_offset = 0, map_length = unat (offset one)\<rparr>"
  define fmt where "fmt = ''Probe mismatch in probe_offseted_part_of_ssbo data[%i]: %i\<newline>''"
  define scan where "scan = finish
      (for_loop
         (\<lambda>i. read (deref w1 m) i (\<lambda>d.
                 if d \<noteq> fill_value_a then Inr (Some (mismatch fmt i d)) else Inr None))
         (offset one div 4) 0)
      (Inr (True, []))"
  have map: "glMapBufferRange w1 0 (unat (offset one)) = m"
    using size off nz by (simp add: glMapBufferRange_def w1_def m_def)
  have probe: "probe_offseted_part_of_ssbo ssbo one w = probed (\<lambda>_. scan) w1"
    using False map
    unfolding probe_offseted_part_of_ssbo_def scan_def fmt_def w1_def [symmetric]
    by (simp add: Let_def)
  have rd: "deref w1 m (sint i) = Some (load_int (storage w ssbo) (4 * unat i))"
      "i \<noteq> INT_MAX" if "i < offset one div 4" for i
    using deref_prefix(1) [OF off that, where w = w1 and ssbo = ssbo] deref_prefix(2) [OF off that]
    by (simp_all add: m_def w1_def)
  then have "\<forall>i. i < offset one div 4 \<longrightarrow> deref w1 m (sint i) \<noteq> None \<and> i \<noteq> INT_MAX"
    by simp
  from scan_result [OF this, where fmt = fmt and c = fill_value_a]
  have res: "(scan = Inr (True, []) \<and> (\<forall>i. i < offset one div 4 \<longrightarrow> deref w1 m (sint i) = Some fill_value_a))
      \<or> (\<exists>k d. scan = Inr (mismatch fmt k d))"
    unfolding scan_def by blast
  have "\<not> (\<exists>k d. scan = Inr (mismatch fmt k d))"
    using true by (auto simp: probe probed_def mismatch_def)
  with res have all: "\<And>i. i < offset one div 4 \<Longrightarrow> deref w1 m (sint i) = Some fill_value_a"
    by blast
  show ?thesis
  proof (intro allI impI)
    fix a assume a: "a < 4 * (unat (offset one) div 4)"
    define i :: int32 where "i = of_nat (a div 4)"
    from a have d: "a div 4 < unat (offset one) div 4"
      by simp
    moreover have "unat (offset one) < 2 ^ 32"
      using unsigned_less [of "offset one", where ?'a = nat] by simp
    ultimately have u: "unat i = a div 4"
      by (simp add: i_def unsigned_of_nat take_bit_nat_eq_self)
    with d have "i < offset one div 4"
      by (simp add: word_less_nat_alt unat_offset_div_4)
    from rd(1) [OF this] all [OF this] have "load_int (storage w ssbo) (4 * (a div 4)) = fill_value_a"
      by (simp add: u)
    from load_int_fill_value_a_bytes [OF this, of "a mod 4"]
    show "storage w ssbo a = ucast fill_value_a"
      by simp
  qed
qed

lemma probe_offseted_iff:
  assumes size: "buffer_size w ssbo = 180000" and off: "unat (offset one) \<le> 180000"
    and "4 dvd unat (offset one)"
  shows "fst (probe_offseted_part_of_ssbo ssbo one w) = Return True
           \<longleftrightarrow> (\<forall>a<unat (offset one). storage w ssbo a = ucast fill_value_a)"
    and "fst (probe_offseted_part_of_ssbo ssbo one w) = Return False
           \<longleftrightarrow> \<not> (\<forall>a<unat (offset one). storage w ssbo a = ucast fill_value_a)"
proof -
  from assms(3) have e: "4 * (unat (offset one) div 4) = unat (offset one)"
    by simp
  from probe_offseted_result [OF size off] obtain r out where
      p: "fst (probe_offseted_part_of_ssbo ssbo one w) = Return r"
      and t: "(\<forall>a<unat (offset one). storage w ssbo a = ucast fill_value_a) \<longrightarrow> r"
    by force
  show "fst (probe_offseted_part_of_ssbo ssbo one w) = Return True
           \<longleftrightarrow> (\<forall>a<unat (offset one). storage w ssbo a = ucast fill_value_a)"
    using probe_offseted_true [OF size off] p t e by auto
  then show "fst (probe_offseted_part_of_ssbo ssbo one w) = Return False
           \<longleftrightarrow> \<not> (\<forall>a<unat (offset one). storage w ssbo a = ucast fill_value_a)"
    using p by auto
qed

lemma probe_offseted_triple:
  assumes "invariant env one ids I" and "ssbo \<in> ids" and "usable one"
  shows "triple I (probe_offseted_part_of_ssbo ssbo one) (\<lambda>_. I)"
proof (rule tripleI)
  fix w assume w: "I w"
  with assms(1,2) have "buffer_size w ssbo = 180000"
    unfolding invariant_def by blast
  moreover have "unat (offset one) \<le> 180000"
    using assms(3) by (simp add: usable_def)
  ultimately obtain r out where
      "probe_offseted_part_of_ssbo ssbo one w
        = (Return r, w\<lparr>stdout := stdout w @ out,
                       ssbo_binding := (if offset one = 0 then ssbo_binding w else ssbo)\<rparr>)"
    using probe_offseted_result by blast
  moreover have "I (w\<lparr>stdout := stdout w @ out,
                       ssbo_binding := (if offset one = 0 then ssbo_binding w else ssbo)\<rparr>)"
    using assms(1) w unfolding invariant_def by blast
  ultimately show "\<exists>x w'. probe_offseted_part_of_ssbo ssbo one w = (Return x, w') \<and> I w'"
    by blast
qed

section \<open>The stages of the script\<close>

lemma unat_bounds:
  "unat one_third = 15000" "unat two_third = 30000" "unat values_count = 45000"
  by (simp_all add: one_third_def two_third_def values_count_def)

lemma usable_shift:
  assumes "usable one"
  shows "unat (offset one) div 4 \<le> unat one_third" "unat (offset one) div 4 \<le> unat two_third"
    "unat (offset one) div 4 \<le> unat values_count"
proof -
  have "unat (offset one) \<le> 60000"
    using assms by (simp add: usable_def)
  then have "unat (offset one) div 4 \<le> 15000"
    by arith
  then show "unat (offset one) div 4 \<le> unat one_third" "unat (offset one) div 4 \<le> unat two_third"
    "unat (offset one) div 4 \<le> unat values_count"
    by (simp_all add: unat_bounds)
qed

lemma invariant_stdout:
  assumes "invariant env one ids I" and "I w"
  shows "I (w\<lparr>stdout := stdout w @ out\<rparr>)"
  using assms by (simp add: invariant_def)

lemma test_script_initial_triple:
  assumes inv: "invariant env one {ssbo_id a, ssbo_id b, ssbo_id c} I" and us: "usable one"
    and m: "mapped_from one a" "mapped_from one b" "mapped_from one c"
  shows "triple (\<lambda>w. I w \<and> (pass \<longrightarrow> G)) (test_script_initial one a b c pass)
           (\<lambda>r w. I w \<and> (r \<longrightarrow> G))"
  unfolding test_script_initial_def
  by (intro and_pass_bind and_pass_last probe_inital_state_of_triple [OF inv us] m)

lemma stage_1_triple:
  assumes inv: "invariant env one {ssbo_id a, ssbo_id b, ssbo_id c} I" and us: "usable one"
    and m: "mapped_from one a" "mapped_from one b" "mapped_from one c"
  shows "triple (\<lambda>w. I w \<and> (pass \<longrightarrow> G)) (stage_1 env one a b c pass)
           (\<lambda>r w. I w \<and> (r \<longrightarrow> G))"
proof -
  note ce = compute_exec_triple [OF invariant_and [OF inv, of "pass \<longrightarrow> G"]]
  show ?thesis
    unfolding stage_1_def
    by (intro triple_seq [OF ce] triple_seq [OF fence_triple] and_pass_bind and_pass_last
        probe_inital_state_of_triple [OF inv us] probe_value_in_range_of_triple [OF inv us]
        m usable_shift [OF us])
      (simp_all add: unat_bounds)
qed

lemma stage_1_learns:
  assumes inv: "invariant env one {ssbo_id a, ssbo_id b, ssbo_id c} I" and us: "usable one"
    and m: "mapped_from one a" "mapped_from one b" "mapped_from one c"
    and fails: "\<And>w. I w \<Longrightarrow> \<exists>r out. probe_value_in_range (deref w (data_ptr b)) one 0 one_third
                  modifed_value = Inr (r, out) \<and> \<not> r"
  shows "triple I (stage_1 env one a b c pass) (\<lambda>r w. I w \<and> (r \<longrightarrow> False))"
proof -
  note ce = compute_exec_triple [OF inv]
  have stable: "\<And>w out. I w \<Longrightarrow> I (w\<lparr>stdout := stdout w @ out\<rparr>)"
    using inv by (rule invariant_stdout)
  have learn: "triple I (probe_value_in_range_of b one 0 one_third modifed_value)
      (\<lambda>r w. I w \<and> \<not> r)"
    unfolding probe_value_in_range_of_def
    by (rule probed_triple
        [where p = "\<lambda>w. probe_value_in_range (deref w (data_ptr b)) one 0 one_third modifed_value"
          and R = "\<lambda>r. \<not> r" and I = I, OF fails stable])
  show ?thesis
    unfolding stage_1_def
    by (intro triple_seq [OF ce] triple_seq [OF fence_triple] and_pass_learn [OF learn]
        and_pass_bind and_pass_last probe_inital_state_of_triple [OF inv us] m)
      simp_all
qed

lemma stage_2_triple:
  assumes inv: "invariant env one {ssbo_id a, ssbo_id b, ssbo_id c} I" and us: "usable one"
    and m: "mapped_from one a" "mapped_from one b" "mapped_from one c"
  shows "triple (\<lambda>w. I w \<and> (pass \<longrightarrow> G)) (stage_2 env one a b c pass)
           (\<lambda>r w. I w \<and> (r \<longrightarrow> G))"
proof -
  note ce = compute_exec_triple [OF invariant_and [OF inv, of "pass \<longrightarrow> G"]]
  show ?thesis
    unfolding stage_2_def
    by (intro triple_seq [OF ce] triple_seq [OF fence_triple] and_pass_bind and_pass_last
        probe_inital_state_of_triple [OF inv us] probe_value_in_range_of_triple [OF inv us]
        m usable_shift [OF us])
      (simp_all add: unat_bounds)
qed

lemma stage_3_triple:
  assumes inv: "invariant env one {ssbo_id a, ssbo_id b, ssbo_id c} I" and us: "usable one"
    and m: "mapped_from one a" "mapped_from one b" "mapped_from one c"
  shows "triple (\<lambda>w. I w \<and> (pass \<longrightarrow> G)) (stage_3 env one a b c pass)
           (\<lambda>r w. I w \<and> (r \<longrightarrow> G))"
proof -
  note ce = compute_exec_triple [OF invariant_and [OF inv, of "pass \<longrightarrow> G"]]
  show ?thesis
    unfolding stage_3_def
    by (intro triple_seq [OF ce] triple_seq [OF fence_triple] and_pass_bind and_pass_last
        probe_inital_state_of_triple [OF inv us] probe_value_in_range_of_triple [OF inv us]
        m usable_shift [OF us])
      (simp_all add: unat_bounds)
qed

lemma test_script_offseted_triple:
  assumes inv: "invariant env one {ssbo_id a, ssbo_id b, ssbo_id c} I" and us: "usable one"
  shows "triple (\<lambda>w. I w \<and> (pass \<longrightarrow> G)) (test_script_offseted one a b c pass)
           (\<lambda>r w. I w \<and> (r \<longrightarrow> G))"
  unfolding test_script_offseted_def
  by (intro and_pass_bind and_pass_last probe_offseted_triple [OF inv _ us]) simp_all

lemma compute_exec_world:
  "compute_exec env ssbo one sb eb v w =
     (Return (),
      w\<lparr>storage := glDispatchCompute env 45 ssbo
                      \<lparr>u_stride = stride one, u_start_bound = max (offset one) sb,
                       u_end_bound = eb, u_value = v\<rparr> (storage w),
        ssbo_binding := ssbo,
        uniform := \<lparr>u_stride = stride one, u_start_bound = max (offset one) sb,
                     u_end_bound = eb, u_value = v\<rparr>\<rparr>)"
  by (simp add: compute_exec_def Let_def ret_def)

lemma script_rest_triple:
  assumes inv: "invariant env one {ssbo_id a, ssbo_id b, ssbo_id c} I" and us: "usable one"
    and m: "mapped_from one a" "mapped_from one b" "mapped_from one c"
  shows "triple I
     (bind (test_script_initial one a b c True) (\<lambda>pass.
      bind (stage_1 env one a b c pass) (\<lambda>pass.
      bind (stage_2 env one a b c pass) (\<lambda>pass.
      bind (stage_3 env one a b c pass) (\<lambda>pass.
      test_script_offseted one a b c pass)))))
     (\<lambda>_. I)"
proof -
  have "triple (\<lambda>w. I w \<and> (True \<longrightarrow> True))
     (bind (test_script_initial one a b c True) (\<lambda>pass.
      bind (stage_1 env one a b c pass) (\<lambda>pass.
      bind (stage_2 env one a b c pass) (\<lambda>pass.
      bind (stage_3 env one a b c pass) (\<lambda>pass.
      test_script_offseted one a b c pass)))))
     (\<lambda>r w. I w \<and> (r \<longrightarrow> True))"
    by (intro triple_bind [OF test_script_initial_triple [OF inv us m]]
        triple_bind [OF stage_1_triple [OF inv us m]]
        triple_bind [OF stage_2_triple [OF inv us m]]
        triple_bind [OF stage_3_triple [OF inv us m]]
        test_script_offseted_triple [OF inv us])
  then show ?thesis
    by (simp add: triple_def)
qed

lemma script_rest_fails:
  assumes inv: "invariant env one {ssbo_id a, ssbo_id b, ssbo_id c} I" and us: "usable one"
    and m: "mapped_from one a" "mapped_from one b" "mapped_from one c"
    and fails: "\<And>w. I w \<Longrightarrow> \<exists>r out. probe_value_in_range (deref w (data_ptr b)) one 0 one_third
                  modifed_value = Inr (r, out) \<and> \<not> r"
  shows "triple I
     (bind (test_script_initial one a b c True) (\<lambda>pass.
      bind (stage_1 env one a b c pass) (\<lambda>pass.
      bind (stage_2 env one a b c pass) (\<lambda>pass.
      bind (stage_3 env one a b c pass) (\<lambda>pass.
      test_script_offseted one a b c pass)))))
     (\<lambda>r w. I w \<and> \<not> r)"
proof -
  have initial: "triple I (test_script_initial one a b c True) (\<lambda>_. I)"
    using test_script_initial_triple [OF inv us m, of True True] by (simp add: triple_def)
  have "triple I
     (bind (test_script_initial one a b c True) (\<lambda>pass.
      bind (stage_1 env one a b c pass) (\<lambda>pass.
      bind (stage_2 env one a b c pass) (\<lambda>pass.
      bind (stage_3 env one a b c pass) (\<lambda>pass.
      test_script_offseted one a b c pass)))))
     (\<lambda>r w. I w \<and> (r \<longrightarrow> False))"
    by (intro triple_bind [OF initial]
        triple_bind [OF stage_1_learns [OF inv us m fails]]
        triple_bind [OF stage_2_triple [OF inv us m]]
        triple_bind [OF stage_3_triple [OF inv us m]]
        test_script_offseted_triple [OF inv us])
  then show ?thesis
    by (simp add: triple_def)
qed

lemma test_script_unfold:
  assumes "test_script_buffers env one w = (Return (a, b, c), w1)"
  shows "test_script env one w =
     bind (test_script_initial one a b c True) (\<lambda>pass.
     bind (stage_1 env one a b c pass) (\<lambda>pass.
     bind (stage_2 env one a b c pass) (\<lambda>pass.
     bind (stage_3 env one a b c pass) (\<lambda>pass.
     test_script_offseted one a b c pass)))) w1"
  using assms by (simp add: test_script_def bind_def)

text \<open>
  On a usable test case, with no error reported by the three allocations,
  \<^verbatim>\<open>test_script\<close> returns, and whatever the steps of the script keep holds at its end.
\<close>

lemma test_script_triple:
  assumes us: "usable one"
    and errors: "\<forall>k<3. glGetError env (glGetError_calls w + k) = GL_NO_ERROR"
    and inv: "invariant env one {buffer_names w + 1, buffer_names w + 2, buffer_names w + 3} I"
    and init: "\<And>w1. buffers_made one w w1 \<Longrightarrow> I w1"
  shows "\<exists>r w'. test_script env one w = (Return r, w') \<and> I w'"
proof -
  have "unat (offset one) < 180000"
    using us by (simp add: usable_def)
  from test_script_buffers_result [OF this errors]
  obtain a b c w1 where b: "test_script_buffers env one w = (Return (a, b, c), w1)"
      and ids: "ssbo_id a = buffer_names w + 1" "ssbo_id b = buffer_names w + 2"
        "ssbo_id c = buffer_names w + 3"
      and m: "mapped_from one a" "mapped_from one b" "mapped_from one c"
      and made: "buffers_made one w w1"
    unfolding buffers_made_def by (metis (no_types, lifting))
  have inv': "invariant env one {ssbo_id a, ssbo_id b, ssbo_id c} I"
    using inv ids by simp
  from script_rest_triple [OF inv' us m] init [OF made]
  show ?thesis
    unfolding test_script_unfold [OF b] triple_def by blast
qed

lemma test_script_fails:
  assumes us: "usable one"
    and errors: "\<forall>k<3. glGetError env (glGetError_calls w + k) = GL_NO_ERROR"
    and inv: "invariant env one {buffer_names w + 1, buffer_names w + 2, buffer_names w + 3} I"
    and init: "\<And>w1. buffers_made one w w1 \<Longrightarrow> I w1"
    and fails: "\<And>w'. I w' \<Longrightarrow> \<exists>r out. probe_value_in_range
          (deref w' \<lparr>buf = buffer_names w + 2, map_offset = unat (offset one),
                     map_length = 180000 - unat (offset one)\<rparr>) one 0 one_third modifed_value
        = Inr (r, out) \<and> \<not> r"
  shows "\<exists>w'. test_script env one w = (Return False, w') \<and> I w'"
proof -
  have "unat (offset one) < 180000"
    using us by (simp add: usable_def)
  from test_script_buffers_result [OF this errors]
  obtain a b c w1 where b: "test_script_buffers env one w = (Return (a, b, c), w1)"
      and ids: "ssbo_id a = buffer_names w + 1" "ssbo_id b = buffer_names w + 2"
        "ssbo_id c = buffer_names w + 3"
      and m: "mapped_from one a" "mapped_from one b" "mapped_from one c"
      and made: "buffers_made one w w1"
    unfolding buffers_made_def by (metis (no_types, lifting))
  have inv': "invariant env one {ssbo_id a, ssbo_id b, ssbo_id c} I"
    using inv ids by simp
  have fails': "\<And>w'. I w' \<Longrightarrow> \<exists>r out. probe_value_in_range (deref w' (data_ptr b)) one 0
      one_third modifed_value = Inr (r, out) \<and> \<not> r"
    using fails m(2) ids(2) by (simp add: mapped_from_def)
  from script_rest_fails [OF inv' us m fails'] init [OF made]
  obtain r w' where "test_script env one w = (Return r, w')" and "I w'" and "\<not> r"
    unfolding test_script_unfold [OF b] triple_def by blast
  then show ?thesis
    by simp
qed

section \<open>What a dispatch leaves alone\<close>

lemma fold_frame:
  assumes "\<And>x d. f x d a = d a"
  shows "fold f xs d a = d a"
  using assms by (induction xs arbitrary: d) simp_all

lemma compute_shader_main_only_in_bounds:
  assumes "\<not> (u_start_bound u \<le> of_nat x \<and> of_nat x < u_end_bound u)"
  shows "compute_shader_main u x data = data"
  using assms by (auto simp: compute_shader_main_def)

lemma compute_shader_main_frame:
  assumes "a div 4 < unat (u_start_bound u)"
  shows "compute_shader_main u x data a = data a"
proof (cases "u_start_bound u \<le> of_nat x")
  case True
  then have "unat (u_start_bound u) \<le> unat (of_nat x :: uint32)"
    by (simp add: word_le_nat_alt)
  also have "\<dots> \<le> x"
    by (simp add: unat_of_nat)
  finally have "a div 4 < x"
    using assms by simp
  then have "a < 4 * x"
    by arith
  then show ?thesis
    by (simp add: compute_shader_main_def store_int_def)
next
  case False
  then show ?thesis
    by (simp add: compute_shader_main_only_in_bounds)
qed

lemma run_compute_shader_frame:
  assumes "a div 4 < unat (u_start_bound u)"
  shows "run_compute_shader n u data a = data a"
  unfolding run_compute_shader_def
  by (rule fold_frame) (rule compute_shader_main_frame [OF assms])

text \<open>
  When the driver runs the shader as written, \<^verbatim>\<open>compute_exec\<close> changes no byte of an
  element whose index is below the test case's offset.
\<close>

lemma compute_exec_frame:
  assumes "runs_shader env" and "a div 4 < unat (offset one)"
  shows "storage (snd (compute_exec env ssbo one sb eb v w)) b a = storage w b a"
proof -
  have "unat (offset one) \<le> unat (max (offset one) sb)"
    by (simp add: word_le_nat_alt [symmetric])
  with assms(2) have "a div 4 < unat (max (offset one) sb)"
    by simp
  then have "run_compute_shader 45 \<lparr>u_stride = stride one, u_start_bound = max (offset one) sb,
      u_end_bound = eb, u_value = v\<rparr> (storage w ssbo) a = storage w ssbo a"
    by (intro run_compute_shader_frame) simp
  with assms(1) show ?thesis
    by (simp add: compute_exec_world runs_shader_def)
qed

lemma prefix_kept_invariant:
  assumes "runs_shader env"
  shows "invariant env one {n + 1, n + 2, n + 3} (prefix_kept one n)"
proof -
  have "prefix_kept one n (snd (compute_exec env ssbo one sb eb v w))"
    if "prefix_kept one n w" for w ssbo sb eb v
  proof -
    have "storage (snd (compute_exec env ssbo one sb eb v w)) b a = storage w b a"
      if "a < unat (offset one)" for a b
    proof -
      have "a div 4 \<le> a"
        by simp
      with that have "a div 4 < unat (offset one)"
        by simp
      with assms show ?thesis
        by (rule compute_exec_frame)
    qed
    moreover have "buffer_names (snd (compute_exec env ssbo one sb eb v w)) = buffer_names w"
      "buffer_size (snd (compute_exec env ssbo one sb eb v w)) = buffer_size w"
      by (simp_all add: compute_exec_world)
    ultimately show ?thesis
      using \<open>prefix_kept one n w\<close> by (simp add: prefix_kept_def)
  qed
  note ce = this
  show ?thesis
    unfolding invariant_def
  proof (intro conjI allI impI)
    fix w out assume "prefix_kept one n w"
    then show "prefix_kept one n (w\<lparr>stdout := stdout w @ out\<rparr>)"
      by (simp add: prefix_kept_def)
  next
    fix w ssbo assume "prefix_kept one n w"
    then show "prefix_kept one n (w\<lparr>ssbo_binding := ssbo\<rparr>)"
      by (simp add: prefix_kept_def)
  next
    fix w ssbo sb eb v assume "prefix_kept one n w \<and> ssbo \<in> {n + 1, n + 2, n + 3}"
    then show "prefix_kept one n (snd (compute_exec env ssbo one sb eb v w))"
      using ce by blast
  next
    fix w ssbo assume "prefix_kept one n w \<and> ssbo \<in> {n + 1, n + 2, n + 3}"
    then show "buffer_size w ssbo = 180000"
      unfolding prefix_kept_def by blast
  qed
qed

lemma buffers_made_prefix_kept:
  assumes "buffers_made one w w1"
  shows "prefix_kept one (buffer_names w) w1"
  using assms by (simp add: buffers_made_def prefix_kept_def filled_def)

lemma allocated_invariant: "invariant env one {n + 1, n + 2, n + 3} (allocated n)"
  unfolding invariant_def
proof (intro conjI allI impI)
  fix w ssbo sb eb v assume "allocated n w \<and> ssbo \<in> {n + 1, n + 2, n + 3}"
  then show "allocated n (snd (compute_exec env ssbo one sb eb v w))"
    by (simp add: allocated_def compute_exec_world)
next
  fix w ssbo assume "allocated n w \<and> ssbo \<in> {n + 1, n + 2, n + 3}"
  then show "buffer_size w ssbo = 180000"
    unfolding allocated_def by blast
qed (simp_all add: allocated_def)

text \<open>
  C5. For a test case whose offset is below the size of a buffer, and when none of the
  three allocations reports an error: \<^verbatim>\<open>init_ssbo\<close> sets all \<open>values_count * 4\<close> bytes
  of its buffer to the byte of \<^verbatim>\<open>fill_value_a\<close>, and \<^verbatim>\<open>map_ssbo\<close> then maps the
  \<open>values_count * 4 - offset\<close> bytes from the offset on, sets them to the byte of
  \<^verbatim>\<open>fill_value_b\<close> and leaves the bytes before the offset alone. \<^verbatim>\<open>test_script\<close>
  starts by making three buffers this way, with the next three buffer names. On a usable
  test case the script returns, and it has made exactly these three buffers.
\<close>

theorem test_script_three_buffers:
  assumes off: "unat (offset one) < unat (values_count * 4)"
    and errors: "\<forall>k<3. glGetError env (glGetError_calls w + k) = GL_NO_ERROR"
  shows "(\<exists>ssbo w1. init_ssbo env w = (Return ssbo, w1)
            \<and> (\<forall>a<unat (values_count * 4). storage w1 ssbo a = ucast fill_value_a)
            \<and> (\<exists>m w2. map_ssbo ssbo (offset one) w1 = (Return m, w2)
                  \<and> buf m = ssbo \<and> map_offset m = unat (offset one)
                  \<and> map_length m = unat (values_count * 4 - offset one)
                  \<and> (\<forall>a<map_length m. storage w2 ssbo (map_offset m + a) = ucast fill_value_b)
                  \<and> (\<forall>a<unat (offset one). storage w2 ssbo a = storage w1 ssbo a)))
       \<and> (\<exists>a b c w'. test_script_buffers env one w = (Return (a, b, c), w')
            \<and> ssbo_id a = buffer_names w + 1 \<and> ssbo_id b = buffer_names w + 2
            \<and> ssbo_id c = buffer_names w + 3 \<and> buffer_names w' = buffer_names w + 3
            \<and> mapped_from one a \<and> mapped_from one b \<and> mapped_from one c
            \<and> filled one w' (ssbo_id a) \<and> filled one w' (ssbo_id b) \<and> filled one w' (ssbo_id c))
       \<and> (stride one \<noteq> 0 \<and> 4 dvd unat (offset one) \<and> unat (offset one) \<le> 60000
            \<longrightarrow> (\<exists>pass w'. test_script env one w = (Return pass, w')
                  \<and> buffer_names w' = buffer_names w + 3))"
proof (intro conjI impI)
  have off': "unat (offset one) < 180000"
    using off by (simp add: unat_values_count_4)
  have e: "glGetError env (glGetError_calls w) = GL_NO_ERROR"
    using errors [rule_format, of 0] by simp
  show "\<exists>ssbo w1. init_ssbo env w = (Return ssbo, w1)
      \<and> (\<forall>a<unat (values_count * 4). storage w1 ssbo a = ucast fill_value_a)
      \<and> (\<exists>m w2. map_ssbo ssbo (offset one) w1 = (Return m, w2)
            \<and> buf m = ssbo \<and> map_offset m = unat (offset one)
            \<and> map_length m = unat (values_count * 4 - offset one)
            \<and> (\<forall>a<map_length m. storage w2 ssbo (map_offset m + a) = ucast fill_value_b)
            \<and> (\<forall>a<unat (offset one). storage w2 ssbo a = storage w1 ssbo a))"
    using off'
    by (auto simp: init_ssbo_result [OF e] map_ssbo_result unat_values_count_4
        unat_mapped_length memset_def)
  from test_script_buffers_result [OF off' errors]
  show "\<exists>a b c w'. test_script_buffers env one w = (Return (a, b, c), w')
      \<and> ssbo_id a = buffer_names w + 1 \<and> ssbo_id b = buffer_names w + 2
      \<and> ssbo_id c = buffer_names w + 3 \<and> buffer_names w' = buffer_names w + 3
      \<and> mapped_from one a \<and> mapped_from one b \<and> mapped_from one c
      \<and> filled one w' (ssbo_id a) \<and> filled one w' (ssbo_id b) \<and> filled one w' (ssbo_id c)"
    by blast
  assume "stride one \<noteq> 0 \<and> 4 dvd unat (offset one) \<and> unat (offset one) \<le> 60000"
  then have us: "usable one"
    by (simp add: usable_def)
  have "allocated (buffer_names w) w1" if "buffers_made one w w1" for w1
    using that by (simp add: buffers_made_def allocated_def filled_def)
  from test_script_triple [OF us errors allocated_invariant this]
  show "\<exists>pass w'. test_script env one w = (Return pass, w') \<and> buffer_names w' = buffer_names w + 3"
    unfolding allocated_def by blast
qed

text \<open>
  For the second test case of a page size of 4096 and a driver that conforms: the
  buffers are 1, 2 and 3, byte 4095 of buffer 2 is 0x55, its bytes 4096 and 179999 are
  0xD7, and the script returns with three buffers made.
\<close>

theorem test_script_three_buffers_witness:
  "unat (offset second_case) < unat (values_count * 4)
   \<and> (\<exists>a b c w'. test_script_buffers conforming second_case fill_start = (Return (a, b, c), w')
        \<and> ssbo_id a = 1 \<and> ssbo_id b = 2 \<and> ssbo_id c = 3 \<and> buffer_names w' = 3
        \<and> storage w' 2 4095 = 0x55 \<and> storage w' 2 4096 = 0xD7 \<and> storage w' 2 179999 = 0xD7)
   \<and> (\<exists>pass w'. test_script conforming second_case fill_start = (Return pass, w')
        \<and> buffer_names w' = 3)"
proof -
  have h: "unat (offset second_case) < unat (values_count * 4)"
    "\<forall>k<3. glGetError conforming (glGetError_calls fill_start + k) = GL_NO_ERROR"
    by (simp_all add: second_case_def values_count_def conforming_def)
  have u: "stride second_case \<noteq> 0 \<and> 4 dvd unat (offset second_case)
      \<and> unat (offset second_case) \<le> 60000"
    by (simp add: second_case_def)
  have n: "buffer_names fill_start = 0" "unat (offset second_case) = 4096"
    by (simp_all add: fill_start_def second_case_def)
  note r = test_script_three_buffers [OF h]
  from r [THEN conjunct2, THEN conjunct1]
  obtain a b c w' where b: "test_script_buffers conforming second_case fill_start = (Return (a, b, c), w')"
      and ids: "ssbo_id a = buffer_names fill_start + 1" "ssbo_id b = buffer_names fill_start + 2"
        "ssbo_id c = buffer_names fill_start + 3" "buffer_names w' = buffer_names fill_start + 3"
      and f: "filled second_case w' (ssbo_id b)"
    by blast
  from f have "storage w' 2 4095 = 0x55 \<and> storage w' 2 4096 = 0xD7 \<and> storage w' 2 179999 = 0xD7"
    by (simp add: filled_def ids n ucast_fill_values numeral_2_eq_2)
  with b ids have "\<exists>a b c w'. test_script_buffers conforming second_case fill_start = (Return (a, b, c), w')
      \<and> ssbo_id a = 1 \<and> ssbo_id b = 2 \<and> ssbo_id c = 3 \<and> buffer_names w' = 3
      \<and> storage w' 2 4095 = 0x55 \<and> storage w' 2 4096 = 0xD7 \<and> storage w' 2 179999 = 0xD7"
    by (auto simp: n numeral_2_eq_2)
  moreover from r [THEN conjunct2, THEN conjunct2] u
  have "\<exists>pass w'. test_script conforming second_case fill_start = (Return pass, w')
      \<and> buffer_names w' = 3"
    by (simp add: n)
  ultimately show ?thesis
    using h(1) by blast
qed

text \<open>
  C9. Every \<^verbatim>\<open>compute_exec\<close> sets the uniform \<^verbatim>\<open>start_bound\<close> to
  \<^verbatim>\<open>max(one.offset, start_bound)\<close>, which is never below the test case's offset. The
  shader leaves the data alone at every \<open>x\<close> outside \<open>[start_bound, end_bound)\<close>. So,
  when the driver runs the shader as written, no \<^verbatim>\<open>compute_exec\<close> changes a byte of an
  element whose index is below the offset. \<^verbatim>\<open>probe_offseted_part_of_ssbo\<close> checks the
  prefix: for an offset that is a multiple of 4, on a buffer of the script it returns
  true exactly when each of the first \<open>offset\<close> bytes holds the byte of
  \<^verbatim>\<open>fill_value_a\<close>, and false otherwise. On a usable test case with no error reported,
  the script returns, and after its three stages the first \<open>offset\<close> bytes of each of
  the three buffers still hold the byte of \<^verbatim>\<open>fill_value_a\<close>, and the probe returns true
  for each of them.
\<close>

theorem compute_exec_start_bound:
  assumes shader: "runs_shader env"
  shows "(\<forall>ssbo sb eb v w0.
            u_start_bound (uniform (snd (compute_exec env ssbo one sb eb v w0))) = max (offset one) sb
            \<and> offset one \<le> max (offset one) sb)
       \<and> (\<forall>(u :: uniforms) x data. \<not> (u_start_bound u \<le> of_nat x \<and> of_nat x < u_end_bound u)
            \<longrightarrow> compute_shader_main u x data = data)
       \<and> (\<forall>ssbo sb eb v w0 b a. a div 4 < unat (offset one)
            \<longrightarrow> storage (snd (compute_exec env ssbo one sb eb v w0)) b a = storage w0 b a)
       \<and> (4 dvd unat (offset one) \<and> unat (offset one) \<le> 180000
            \<longrightarrow> (\<forall>ssbo w0. buffer_size w0 ssbo = 180000
                   \<longrightarrow> (fst (probe_offseted_part_of_ssbo ssbo one w0) = Return True
                          \<longleftrightarrow> (\<forall>a<unat (offset one). storage w0 ssbo a = ucast fill_value_a))
                       \<and> (fst (probe_offseted_part_of_ssbo ssbo one w0) = Return False
                          \<longleftrightarrow> \<not> (\<forall>a<unat (offset one). storage w0 ssbo a = ucast fill_value_a))))
       \<and> (stride one \<noteq> 0 \<and> 4 dvd unat (offset one) \<and> unat (offset one) \<le> 60000
            \<and> (\<forall>k<3. glGetError env (glGetError_calls w + k) = GL_NO_ERROR)
            \<longrightarrow> (\<exists>pass w'. test_script env one w = (Return pass, w')
                   \<and> (\<forall>ssbo\<in>{buffer_names w + 1, buffer_names w + 2, buffer_names w + 3}.
                         buffer_size w' ssbo = 180000
                         \<and> (\<forall>a<unat (offset one). storage w' ssbo a = ucast fill_value_a)
                         \<and> fst (probe_offseted_part_of_ssbo ssbo one w') = Return True)))"
proof (intro conjI allI impI)
  fix ssbo sb eb v w0
  show "u_start_bound (uniform (snd (compute_exec env ssbo one sb eb v w0))) = max (offset one) sb"
    by (simp add: compute_exec_world)
  show "offset one \<le> max (offset one) sb"
    by simp
next
  fix u :: uniforms and x data
  assume "\<not> (u_start_bound u \<le> of_nat x \<and> of_nat x < u_end_bound u)"
  then show "compute_shader_main u x data = data"
    by (rule compute_shader_main_only_in_bounds)
next
  fix ssbo sb eb v w0 b a
  assume "a div 4 < unat (offset one)"
  with shader show "storage (snd (compute_exec env ssbo one sb eb v w0)) b a = storage w0 b a"
    by (rule compute_exec_frame)
next
  fix ssbo and w0 :: fill_world
  assume "4 dvd unat (offset one) \<and> unat (offset one) \<le> 180000"
    and size: "buffer_size w0 ssbo = 180000"
  then have d: "4 dvd unat (offset one)" and off: "unat (offset one) \<le> 180000"
    by simp_all
  show "fst (probe_offseted_part_of_ssbo ssbo one w0) = Return True
      \<longleftrightarrow> (\<forall>a<unat (offset one). storage w0 ssbo a = ucast fill_value_a)"
    by (rule probe_offseted_iff(1) [OF size off d])
  show "fst (probe_offseted_part_of_ssbo ssbo one w0) = Return False
      \<longleftrightarrow> \<not> (\<forall>a<unat (offset one). storage w0 ssbo a = ucast fill_value_a)"
    by (rule probe_offseted_iff(2) [OF size off d])
next
  assume "stride one \<noteq> 0 \<and> 4 dvd unat (offset one) \<and> unat (offset one) \<le> 60000
      \<and> (\<forall>k<3. glGetError env (glGetError_calls w + k) = GL_NO_ERROR)"
  then have us: "stride one \<noteq> 0" "4 dvd unat (offset one)" "unat (offset one) \<le> 60000"
    and errors: "\<forall>k<3. glGetError env (glGetError_calls w + k) = GL_NO_ERROR"
    by simp_all
  have usable: "usable one"
    using us by (simp add: usable_def)
  from test_script_triple [OF usable errors prefix_kept_invariant [OF shader]
      buffers_made_prefix_kept]
  obtain pass w' where t: "test_script env one w = (Return pass, w')"
      and k: "prefix_kept one (buffer_names w) w'"
    by blast
  have "fst (probe_offseted_part_of_ssbo ssbo one w') = Return True"
    if "ssbo \<in> {buffer_names w + 1, buffer_names w + 2, buffer_names w + 3}" for ssbo
  proof -
    from k that have "buffer_size w' ssbo = 180000"
        and a: "\<forall>a<unat (offset one). storage w' ssbo a = ucast fill_value_a"
      unfolding prefix_kept_def by blast+
    moreover have "unat (offset one) \<le> 180000"
      using us(3) by simp
    ultimately show ?thesis
      using probe_offseted_result [of w' ssbo one] a by auto
  qed
  with t k show "\<exists>pass w'. test_script env one w = (Return pass, w')
      \<and> (\<forall>ssbo\<in>{buffer_names w + 1, buffer_names w + 2, buffer_names w + 3}.
            buffer_size w' ssbo = 180000
            \<and> (\<forall>a<unat (offset one). storage w' ssbo a = ucast fill_value_a)
            \<and> fst (probe_offseted_part_of_ssbo ssbo one w') = Return True)"
    unfolding prefix_kept_def by blast
qed

text \<open>
  For the second test case of a page size of 4096 and a driver that conforms: after the
  script, bytes below 4096 of the three buffers are 0x55 and the probe of the prefix of
  buffer 2 returns true; it returns false once byte 4095 of that buffer is set to 0.
\<close>

theorem compute_exec_start_bound_witness:
  "runs_shader conforming \<and> stride second_case \<noteq> 0 \<and> 4 dvd unat (offset second_case)
   \<and> unat (offset second_case) \<le> 60000
   \<and> glGetError conforming (glGetError_calls fill_start) = GL_NO_ERROR
   \<and> glGetError conforming (glGetError_calls fill_start + 1) = GL_NO_ERROR
   \<and> glGetError conforming (glGetError_calls fill_start + 2) = GL_NO_ERROR
   \<and> (\<exists>pass w'. test_script conforming second_case fill_start = (Return pass, w')
        \<and> storage w' 1 4095 = 0x55 \<and> storage w' 2 0 = 0x55 \<and> storage w' 3 4095 = 0x55
        \<and> fst (probe_offseted_part_of_ssbo 2 second_case w') = Return True
        \<and> fst (probe_offseted_part_of_ssbo 2 second_case
                  (w'\<lparr>storage := (storage w')(2 := (storage w' 2)(4095 := 0))\<rparr>)) = Return False)"
proof -
  have h: "runs_shader conforming" "stride second_case \<noteq> 0" "4 dvd unat (offset second_case)"
    "unat (offset second_case) \<le> 60000"
    "\<forall>k<3. glGetError conforming (glGetError_calls fill_start + k) = GL_NO_ERROR"
    by (simp_all add: second_case_def conforming_def runs_shader_def)
  have n: "buffer_names fill_start = 0" "unat (offset second_case) = 4096"
    by (simp_all add: fill_start_def second_case_def)
  note c = compute_exec_start_bound [OF h(1), of second_case fill_start,
      THEN conjunct2, THEN conjunct2, THEN conjunct2]
  from c [THEN conjunct2] h(2-5)
  obtain pass w' where t: "test_script conforming second_case fill_start = (Return pass, w')"
    and a: "\<forall>ssbo\<in>{buffer_names fill_start + 1, buffer_names fill_start + 2,
                     buffer_names fill_start + 3}.
            buffer_size w' ssbo = 180000
            \<and> (\<forall>a<unat (offset second_case). storage w' ssbo a = ucast fill_value_a)
            \<and> fst (probe_offseted_part_of_ssbo ssbo second_case w') = Return True"
    by blast
  have p: "\<forall>a<4096. storage w' 1 a = 0x55" "\<forall>a<4096. storage w' 2 a = 0x55"
    "\<forall>a<4096. storage w' 3 a = 0x55"
    "fst (probe_offseted_part_of_ssbo 2 second_case w') = Return True"
    "buffer_size w' 2 = 180000"
    using a [rule_format, of 1] a [rule_format, of 2] a [rule_format, of 3]
    by (simp_all add: n ucast_fill_values numeral_2_eq_2)
  define damaged where "damaged = w'\<lparr>storage := (storage w')(2 := (storage w' 2)(4095 := 0))\<rparr>"
  have "buffer_size damaged 2 = 180000"
    using p(5) by (simp add: damaged_def)
  moreover have "4 dvd unat (offset second_case) \<and> unat (offset second_case) \<le> 180000"
    by (simp add: n)
  ultimately have "fst (probe_offseted_part_of_ssbo 2 second_case damaged) = Return False
      \<longleftrightarrow> \<not> (\<forall>a<unat (offset second_case). storage damaged 2 a = ucast fill_value_a)"
    using c [THEN conjunct1, rule_format, of damaged 2] by blast
  moreover have "\<not> (\<forall>a<unat (offset second_case). storage damaged 2 a = ucast fill_value_a)"
    by (auto simp: n damaged_def ucast_fill_values intro!: exI [of _ 4095])
  ultimately have "fst (probe_offseted_part_of_ssbo 2 second_case damaged) = Return False"
    by blast
  moreover from p have "storage w' 1 4095 = 0x55 \<and> storage w' 2 0 = 0x55 \<and> storage w' 3 4095 = 0x55
      \<and> fst (probe_offseted_part_of_ssbo 2 second_case w') = Return True"
    by simp
  moreover have "glGetError conforming (glGetError_calls fill_start) = GL_NO_ERROR"
      "glGetError conforming (glGetError_calls fill_start + 1) = GL_NO_ERROR"
      "glGetError conforming (glGetError_calls fill_start + 2) = GL_NO_ERROR"
    by (simp_all add: conforming_def)
  ultimately show ?thesis
    using t h(1-4) unfolding damaged_def by blast
qed

section \<open>The exit code of fill_ssbo_coherent\<close>

lemma bind_Return_iff:
  "bind m f w = (Return y, w'') \<longleftrightarrow> (\<exists>x w'. m w = (Return x, w') \<and> f x w' = (Return y, w''))"
  by (cases "m w"; cases "fst (m w)") (auto simp: bind_def)

lemma grew_allocated_invariant:
  "invariant env one {n + 1, n + 2, n + 3} (\<lambda>w'. grew w w' \<and> allocated n w')"
proof -
  have "invariant env one {n + 1, n + 2, n + 3} (\<lambda>w'. allocated n w' \<and> grew w w')"
    unfolding invariant_def
  proof (intro conjI allI impI)
    fix w' ssbo sb eb v
    assume a: "(allocated n w' \<and> grew w w') \<and> ssbo \<in> {n + 1, n + 2, n + 3}"
    then show "allocated n (snd (compute_exec env ssbo one sb eb v w'))"
      using allocated_invariant [of env one n] unfolding invariant_def by blast
    from a show "grew w (snd (compute_exec env ssbo one sb eb v w'))"
      by (simp add: grew_def compute_exec_world)
  next
    fix w' ssbo assume "(allocated n w' \<and> grew w w') \<and> ssbo \<in> {n + 1, n + 2, n + 3}"
    then show "buffer_size w' ssbo = 180000"
      unfolding allocated_def by blast
  qed (auto simp: allocated_def grew_def)
  then show ?thesis
    by (simp add: conj_commute)
qed

lemma test_script_grows:
  assumes "usable one" and "\<forall>k. glGetError env k = GL_NO_ERROR"
  shows "\<exists>r w'. test_script env one w = (Return r, w') \<and> grew w w'"
proof -
  have "grew w w1 \<and> allocated (buffer_names w) w1" if "buffers_made one w w1" for w1
    using that by (simp add: buffers_made_def allocated_def filled_def grew_def)
  from test_script_triple [OF assms(1) _ grew_allocated_invariant this] assms(2)
  show ?thesis
    by blast
qed

text \<open>
  The loop over the test cases returns for the seven test cases of a page size of 4096,
  and only adds to standard output.
\<close>

lemma run_test_cases_keeps:
  assumes "\<forall>tc\<in>set cases. usable tc" and "\<forall>k. glGetError env k = GL_NO_ERROR"
  shows "\<exists>r w'. run_test_cases env cases pass w = (Return r, w') \<and> grew w w'"
  using assms(1)
proof (induction cases arbitrary: pass w)
  case Nil
  show ?case
    by (simp add: ret_def grew_def)
next
  case (Cons tc rest)
  then have "usable tc"
    by simp
  from test_script_grows [OF this assms(2)]
  obtain r w1 where t: "test_script env tc w = (Return r, w1)" and g1: "grew w w1"
    by blast
  define w2 where "w2 = (if \<not> (r \<and> pass) then w1\<lparr>stdout := stdout w1 @ [test_failed tc]\<rparr> else w1)"
  have p: "(if \<not> (r \<and> pass)
            then printf ''Test failed  with offset: %u stride: %u \<newline>''
                   [Arg_uint (unat (offset tc)), Arg_uint (unat (stride tc))]
            else ret ()) w1 = (Return (), w2)"
    by (simp add: w2_def printf_def ret_def test_failed_def)
  have g2: "grew w w2"
    using g1 by (auto simp: w2_def grew_def)
  from Cons.IH [of "r \<and> pass" w2] Cons.prems
  obtain r' w' where rest: "run_test_cases env rest (r \<and> pass) w2 = (Return r', w')"
      and g3: "grew w2 w'"
    by auto
  have "run_test_cases env (tc # rest) pass w = (Return r', w')"
    using t p rest by (simp add: bind_def)
  moreover have "grew w w'"
    using g2 g3 by (auto simp: grew_def)
  ultimately show ?case
    by blast
qed

lemma first_case_probe_fails:
  assumes b: "\<forall>a<180000. storage w ssbo a = ucast fill_value_b"
  shows "\<exists>r out. probe_value_in_range
            (deref w \<lparr>buf = ssbo, map_offset = unat (offset first_case),
                      map_length = 180000 - unat (offset first_case)\<rparr>)
            first_case 0 one_third modifed_value = Inr (r, out) \<and> \<not> r"
proof -
  define m where "m = \<lparr>buf = ssbo, map_offset = unat (offset first_case),
      map_length = 180000 - unat (offset first_case)\<rparr>"
  define cd where "cd = \<lparr>ssbo_id = ssbo, data_ptr = m\<rparr>"
  have us: "usable first_case"
    by (simp add: usable_def first_case_def)
  have s: "stride first_case \<noteq> 0"
    by (simp add: first_case_def)
  have mf: "mapped_from first_case cd"
    by (simp add: mapped_from_def cd_def m_def)
  have r: "\<forall>i. i < values_count - offset first_case div 4
            \<or> (0 - offset first_case div 4 \<le> i \<and> i < one_third - offset first_case div 4)
          \<longrightarrow> deref w m (sint i) \<noteq> None \<and> i \<noteq> INT_MAX"
    using readable_ranges [OF us mf, of one_third 0 w]
    by (simp add: cd_def unat_bounds first_case_def)
  have "0 < values_count - offset first_case div 4"
    by (simp add: values_count_def first_case_def)
  from deref_first_range(1) [OF _ _ this, of w ssbo]
  have "deref w m (sint 0) = Some (load_int (storage w ssbo) 0)"
    by (simp add: m_def first_case_def)
  also have "load_int (storage w ssbo) 0 = fill_value_b"
    using b by (intro load_int_fill_value_b) simp
  finally have "\<not> second_range_ok (deref w m) first_case modifed_value 0"
    by (simp add: second_range_ok_def first_case_def fill_value_b_def modifed_value_def)
  moreover have "0 - offset first_case div 4 \<le> 0 \<and> 0 < one_third - offset first_case div 4"
    by (simp add: first_case_def one_third_def values_count_def)
  ultimately have "\<not> (\<forall>i. 0 - offset first_case div 4 \<le> i \<and> i < one_third - offset first_case div 4
      \<longrightarrow> second_range_ok (deref w m) first_case modifed_value i)"
    by blast
  with probe_value_in_range_result [OF s r, of modifed_value]
  have "\<exists>out. probe_value_in_range (deref w m) first_case 0 one_third modifed_value
      = Inr (False, out)"
    by blast
  then show ?thesis
    unfolding m_def by blast
qed

text \<open>
  When no write of the shader reaches the buffer, the first probe of stage 1 finds
  \<^verbatim>\<open>fill_value_b\<close> at index 0 where it expects \<^verbatim>\<open>modifed_value\<close>, and the script of
  the first test case returns false.
\<close>

lemma first_case_fails:
  assumes lost: "glDispatchCompute env = (\<lambda>n b u s. s)"
    and errors: "\<forall>k. glGetError env k = GL_NO_ERROR"
  shows "\<exists>w'. test_script env first_case w = (Return False, w') \<and> grew w w'"
proof -
  define n where "n = buffer_names w"
  define I where "I = (\<lambda>w'. (grew w w' \<and> allocated n w')
      \<and> (\<forall>a<180000. storage w' (n + 2) a = ucast fill_value_b))"
  have us: "usable first_case"
    by (simp add: usable_def first_case_def)
  have ga: "invariant env first_case {n + 1, n + 2, n + 3} (\<lambda>w'. grew w w' \<and> allocated n w')"
    by (rule grew_allocated_invariant)
  have inv: "invariant env first_case {n + 1, n + 2, n + 3} I"
    unfolding invariant_def
  proof (intro conjI allI impI)
    fix w' out assume "I w'"
    then show "I (w'\<lparr>stdout := stdout w' @ out\<rparr>)"
      using ga by (simp add: I_def invariant_def)
  next
    fix w' ssbo assume "I w'"
    then show "I (w'\<lparr>ssbo_binding := ssbo\<rparr>)"
      using ga by (simp add: I_def invariant_def)
  next
    fix w' ssbo sb eb v assume a: "I w' \<and> ssbo \<in> {n + 1, n + 2, n + 3}"
    then have "grew w (snd (compute_exec env ssbo first_case sb eb v w'))
        \<and> allocated n (snd (compute_exec env ssbo first_case sb eb v w'))"
      using ga unfolding invariant_def I_def by blast
    moreover have "storage (snd (compute_exec env ssbo first_case sb eb v w')) = storage w'"
      by (simp add: compute_exec_world lost)
    ultimately show "I (snd (compute_exec env ssbo first_case sb eb v w'))"
      using a by (simp add: I_def)
  next
    fix w' ssbo assume "I w' \<and> ssbo \<in> {n + 1, n + 2, n + 3}"
    then show "buffer_size w' ssbo = 180000"
      using ga unfolding invariant_def I_def by blast
  qed
  have init: "I w1" if "buffers_made first_case w w1" for w1
    using that
    by (simp add: buffers_made_def I_def allocated_def filled_def grew_def n_def first_case_def)
  have fails: "\<exists>r out. probe_value_in_range
        (deref w' \<lparr>buf = buffer_names w + 2, map_offset = unat (offset first_case),
                   map_length = 180000 - unat (offset first_case)\<rparr>)
        first_case 0 one_third modifed_value = Inr (r, out) \<and> \<not> r" if "I w'" for w'
    using that first_case_probe_fails [of w' "n + 2"] by (simp add: I_def n_def)
  from test_script_fails [OF us _ inv [unfolded n_def] init fails] errors
  obtain w' where "test_script env first_case w = (Return False, w')" and "I w'"
    by blast
  then show ?thesis
    unfolding I_def by blast
qed

lemma run_test_cases_first_fails:
  assumes lost: "glDispatchCompute env = (\<lambda>n b u s. s)"
    and errors: "\<forall>k. glGetError env k = GL_NO_ERROR"
    and rest: "\<forall>tc\<in>set rest. usable tc"
  shows "\<exists>r w'. run_test_cases env (first_case # rest) pass w = (Return r, w')
           \<and> test_failed first_case \<in> set (stdout w')"
proof -
  from first_case_fails [OF lost errors]
  obtain w1 where t: "test_script env first_case w = (Return False, w1)"
    by blast
  define w2 where "w2 = w1\<lparr>stdout := stdout w1 @ [test_failed first_case]\<rparr>"
  from run_test_cases_keeps [OF rest errors, of False w2]
  obtain r w' where r: "run_test_cases env rest False w2 = (Return r, w')" and g: "grew w2 w'"
    by blast
  have "run_test_cases env (first_case # rest) pass w = (Return r, w')"
    using t r by (simp add: bind_def printf_def w2_def test_failed_def)
  moreover have "test_failed first_case \<in> set (stdout w')"
    using g by (auto simp: grew_def w2_def)
  ultimately show ?thesis
    by blast
qed

lemma main_fill_returns_0:
  assumes "main_fill env argv = (Return code, w)"
    and "glfwCreateWindow env" and "gladLoadGLLoader env"
  shows "code = 0"
  using assms by (auto simp: main_fill_def bind_Return_iff ret_def)

text \<open>
  C1. The claim: the exit code of fill_ssbo_coherent is 0 when all seven test cases pass
  and a failure code when one of them fails. \<^verbatim>\<open>main\<close> ends with
  \<^verbatim>\<open>return 0 ; // pass ? 0 : EXIT_FAILURE;\<close>: in the environment \<open>loses_writes\<close> the first
  test case fails, \<^verbatim>\<open>main\<close> prints that it failed, and the exit code is 0.
\<close>

theorem main_fill_ignores_pass:
  "fst (main_fill loses_writes []) = Return 0
   \<and> test_failed first_case \<in> set (stdout (snd (main_fill loses_writes [])))"
proof -
  have env: "glDispatchCompute loses_writes = (\<lambda>n b u s. s)"
      "\<forall>k. glGetError loses_writes k = GL_NO_ERROR"
    by (simp_all add: loses_writes_def conforming_def)
  have cases: "init_test_cases loses_writes = first_case # tl (init_test_cases loses_writes)"
    by (simp add: init_test_cases_def first_case_def Let_def)
  have "\<forall>tc\<in>set (tl (init_test_cases loses_writes)). usable tc"
    by (simp add: init_test_cases_def loses_writes_def conforming_def usable_def Let_def)
  from run_test_cases_first_fails [OF env this, of True "fill_start\<lparr>prog := 1\<rparr>"]
  obtain r w' where "run_test_cases loses_writes (init_test_cases loses_writes) True
        (fill_start\<lparr>prog := 1\<rparr>) = (Return r, w')"
      and "test_failed first_case \<in> set (stdout w')"
    using cases by auto
  then show ?thesis
    by (simp add: main_fill_def loses_writes_def conforming_def require_extension_def
        build_programm_def bind_def ret_def fill_start_def)
qed

section \<open>The vertices and indexes of map_and_draw_coherent\<close>

lemma colors_row_length:
  "length (colors_row width height y x color) = length color + 4 * nat (width - x)"
proof (induction width height y x color rule: colors_row.induct)
  case (1 width height y x color)
  show ?case
  proof (cases "x < width")
    case True
    then have "nat (width - x) = Suc (nat (width - (x + 1)))"
      by simp
    with True "1.IH" show ?thesis
      by (subst colors_row.simps) simp
  next
    case False
    then show ?thesis
      by (subst colors_row.simps) simp
  qed
qed

lemma colors_rows_length:
  assumes "0 \<le> width"
  shows "length (colors_rows width height y color)
           = length color + 4 * nat width * nat (height - y)"
proof (induction width height y color rule: colors_rows.induct)
  case (1 width height y color)
  show ?case
  proof (cases "y < height")
    case True
    then have "nat (height - y) = Suc (nat (height - (y + 1)))"
      by simp
    with True "1.IH" show ?thesis
      by (subst colors_rows.simps) (simp add: colors_row_length)
  next
    case False
    then show ?thesis
      by (subst colors_rows.simps) simp
  qed
qed

lemma indexes_row_length:
  "length (indexes_row cols y x indexes) = length indexes + 2 * nat (cols + 1 - x)"
proof (induction cols y x indexes rule: indexes_row.induct)
  case (1 cols y x indexes)
  show ?case
  proof (cases "x \<le> cols")
    case True
    then have "nat (cols + 1 - x) = Suc (nat (cols + 1 - (x + 1)))"
      by simp
    with True "1.IH" show ?thesis
      by (subst indexes_row.simps) simp
  next
    case False
    then show ?thesis
      by (subst indexes_row.simps) simp
  qed
qed

lemma indexes_rows_length:
  assumes "0 \<le> cols + 1"
  shows "length (indexes_rows cols rows y indexes)
           = length indexes + (2 * nat (cols + 1) + 2) * nat (rows - y)"
proof (induction cols rows y indexes rule: indexes_rows.induct)
  case (1 cols rows y indexes)
  show ?case
  proof (cases "y < rows")
    case True
    then have "nat (rows - y) = Suc (nat (rows - (y + 1)))"
      by simp
    with True "1.IH" show ?thesis
      by (subst indexes_rows.simps) (simp add: indexes_row_length)
  next
    case False
    then show ?thesis
      by (subst indexes_rows.simps) simp
  qed
qed

lemma below_append:
  "below hi (xs @ ys) \<longleftrightarrow> below hi xs \<and> below hi ys"
  by (auto simp: below_def)

lemma below_single:
  assumes "0 \<le> k" and "k \<le> hi"
  shows "below hi [of_int k]"
  using assms by (auto simp: below_def)

lemma indexes_row_below:
  assumes "below hi indexes" and "0 \<le> y" and "0 \<le> x" and "0 \<le> cols"
    and "(y + 1) * (cols + 1) + cols \<le> hi"
  shows "below hi (indexes_row cols y x indexes)"
  using assms
proof (induction cols y x indexes rule: indexes_row.induct)
  case (1 cols y x indexes)
  show ?case
  proof (cases "x \<le> cols")
    case True
    have "0 \<le> y * (cols + 1)"
      using "1.prems" by simp
    then have a: "0 \<le> y * (cols + 1) + x" "0 \<le> (y + 1) * (cols + 1) + x"
      using "1.prems" by (simp_all add: algebra_simps)
    have b: "(y + 1) * (cols + 1) + x \<le> hi"
      using "1.prems" True by simp
    moreover have "y * (cols + 1) + x \<le> (y + 1) * (cols + 1) + x"
      using "1.prems" by (simp add: algebra_simps)
    ultimately have c: "y * (cols + 1) + x \<le> hi"
      by simp
    have "below hi (indexes @ [of_int (y * (cols + 1) + x), of_int ((y + 1) * (cols + 1) + x)])"
      using "1.prems"(1) below_single [OF a(1) c] below_single [OF a(2) b]
      by (simp add: below_def)
    with True "1.IH" "1.prems" show ?thesis
      by (subst indexes_row.simps) simp
  next
    case False
    with "1.prems" show ?thesis
      by (subst indexes_row.simps) simp
  qed
qed

lemma indexes_rows_below:
  assumes "below hi indexes" and "0 \<le> y" and "1 \<le> cols"
    and "rows * (cols + 1) + cols \<le> hi"
  shows "below hi (indexes_rows cols rows y indexes)"
  using assms
proof (induction cols rows y indexes rule: indexes_rows.induct)
  case (1 cols rows y indexes)
  show ?case
  proof (cases "y < rows")
    case True
    then have "(y + 1) * (cols + 1) \<le> rows * (cols + 1)"
      using "1.prems" by (intro mult_right_mono) simp_all
    then have hi: "(y + 1) * (cols + 1) + cols \<le> hi"
      using "1.prems"(4) by linarith
    have nn: "0 \<le> y * (cols + 1)" "0 \<le> (y + 1) * (cols + 1) + (cols - 1)"
      using "1.prems" by simp_all
    have "y * (cols + 1) \<le> (y + 1) * (cols + 1) + cols"
      using "1.prems" by (simp add: algebra_simps)
    with hi have yh: "y * (cols + 1) \<le> hi"
      by linarith
    have "below hi [of_int (y * (cols + 1)) :: uint32]"
      by (rule below_single [OF nn(1) yh])
    with "1.prems"(1) have "below hi (indexes @ [of_int (y * (cols + 1))])"
      unfolding below_append by (rule conjI)
    moreover have "0 \<le> cols" "(0::int) \<le> 0"
      using "1.prems"(3) by simp_all
    ultimately have r: "below hi (indexes_row cols y 0 (indexes @ [of_int (y * (cols + 1))]))"
      using "1.prems"(2) hi by (intro indexes_row_below)
    have "(y + 1) * (cols + 1) + (cols - 1) \<le> hi"
      using hi by linarith
    with nn(2) have "below hi [of_int ((y + 1) * (cols + 1) + (cols - 1)) :: uint32]"
      by (rule below_single)
    with r have "below hi (indexes_row cols y 0 (indexes @ [of_int (y * (cols + 1))])
        @ [of_int ((y + 1) * (cols + 1) + (cols - 1))])"
      unfolding below_append by (rule conjI)
    with True "1.IH" "1.prems" show ?thesis
      by (subst indexes_rows.simps) simp
  next
    case False
    with "1.prems" show ?thesis
      by (subst indexes_rows.simps) simp
  qed
qed

lemma steps_next:
  assumes "0 < step" and "0 \<le> distance"
  shows "steps distance step = Suc (steps (distance - step) step)"
proof (cases "0 \<le> distance - step")
  case True
  have "distance div step = (distance - step + step) div step"
    by simp
  also have "\<dots> = (distance - step) div step + 1"
    using assms(1) by (subst div_add_self2) simp_all
  finally have "distance div step = (distance - step) div step + 1" .
  moreover have "0 \<le> (distance - step) div step"
    using True assms(1) by (simp add: pos_imp_zdiv_nonneg_iff)
  ultimately show ?thesis
    using True assms(2) by (simp add: steps_def nat_add_distrib)
next
  case False
  then have "distance div step = 0"
    using assms by (intro div_pos_pos_trivial) simp_all
  with False assms(2) show ?thesis
    by (simp add: steps_def)
qed

lemma vertices_row_result:
  assumes "0 < step"
  shows "\<exists>vs. vertices_row width height step y x vertices = Some (vertices @ vs)
           \<and> length vs = 3 * steps (c_div width 2 - x) step"
proof (induction "nat (c_div width 2 + 1 - x)" arbitrary: x vertices rule: less_induct)
  case less
  show ?case
  proof (cases "x \<le> c_div width 2")
    case False
    then show ?thesis
      by (subst vertices_row.simps) (simp add: steps_def)
  next
    case True
    define vertices' where "vertices' = vertices @ [Float_div x (c_div width 2),
        Float_div y (c_div height 2), Float_lit 0]"
    have "nat (c_div width 2 + 1 - (x + step)) < nat (c_div width 2 + 1 - x)"
      using True assms by simp
    from less [OF this, of vertices']
    obtain vs where vs: "vertices_row width height step y (x + step) vertices' = Some (vertices' @ vs)"
        "length vs = 3 * steps (c_div width 2 - (x + step)) step"
      by blast
    have "vertices_row width height step y x vertices
        = vertices_row width height step y (x + step) vertices'"
      using True by (subst vertices_row.simps) (simp add: vertices'_def)
    with vs(1) have "vertices_row width height step y x vertices
        = Some (vertices @ ([Float_div x (c_div width 2), Float_div y (c_div height 2),
                             Float_lit 0] @ vs))"
      by (simp add: vertices'_def)
    moreover have "steps (c_div width 2 - x) step = Suc (steps (c_div width 2 - x - step) step)"
      using assms True by (intro steps_next) simp_all
    then have "length ([Float_div x (c_div width 2), Float_div y (c_div height 2), Float_lit 0] @ vs)
        = 3 * steps (c_div width 2 - x) step"
      using vs(2) by (simp add: algebra_simps)
    ultimately show ?thesis
      by blast
  qed
qed

lemma vertices_rows_result:
  assumes "0 < step"
  shows "\<exists>vs. vertices_rows width height step y vertices = Some (vertices @ vs)
           \<and> length vs = 3 * steps (c_div width 2 - (0 - c_div width 2)) step
                            * steps (y - (0 - c_div height 2)) step"
proof (induction "nat (y + c_div height 2 + 1)" arbitrary: y vertices rule: less_induct)
  case less
  show ?case
  proof (cases "y \<ge> 0 - c_div height 2")
    case False
    then show ?thesis
      by (subst vertices_rows.simps) (simp add: steps_def)
  next
    case True
    from vertices_row_result [OF assms, of width height y "0 - c_div width 2" vertices]
    obtain row where row: "vertices_row width height step y (0 - c_div width 2) vertices
          = Some (vertices @ row)"
        "length row = 3 * steps (c_div width 2 - (0 - c_div width 2)) step"
      by blast
    have "nat (y - step + c_div height 2 + 1) < nat (y + c_div height 2 + 1)"
      using True assms by simp
    from less [OF this, of "vertices @ row"]
    obtain vs where vs: "vertices_rows width height step (y - step) (vertices @ row)
          = Some ((vertices @ row) @ vs)"
        "length vs = 3 * steps (c_div width 2 - (0 - c_div width 2)) step
                        * steps (y - step - (0 - c_div height 2)) step"
      by blast
    have "vertices_rows width height step y vertices = Some (vertices @ (row @ vs))"
      using True row(1) vs(1) by (subst vertices_rows.simps) simp
    moreover have "steps (y - (0 - c_div height 2)) step
        = Suc (steps (y - (0 - c_div height 2) - step) step)"
      using assms True by (intro steps_next) simp_all
    then have "length (row @ vs) = 3 * steps (c_div width 2 - (0 - c_div width 2)) step
                            * steps (y - (0 - c_div height 2)) step"
      using row(2) vs(2) by (simp add: algebra_simps)
    ultimately show ?thesis
      by blast
  qed
qed

lemma below_unat:
  assumes "below hi indexes" and "hi < 2 ^ 32" and "v \<in> set indexes"
  shows "int (unat v) \<le> hi"
proof -
  from assms(1,3) obtain k where k: "0 \<le> k" "k \<le> hi" "v = of_int k"
    unfolding below_def by blast
  then have "v = of_nat (nat k)"
    by simp
  moreover have "nat k < 2 ^ 32"
    using k(1,2) assms(2) by (simp add: nat_less_iff)
  ultimately have "unat v = nat k"
    by (simp add: unat_of_nat)
  with k show ?thesis
    by simp
qed

lemma generateVerticles_256:
  assumes "mapped_size w = 1048576"
  shows "\<exists>vertices indexes.
      generateVerticles 256 256 8 w
        = Some (Return (),
            w\<lparr>stdout := stdout w @ [Printf ''Vertexes count %d \<newline>'' [Arg_int 1089],
                                     Printf ''Indexes count %d \<newline>'' [Arg_int 2176]],
              vertex_memory := vertices, index_memory := indexes, indexes_count := 2176\<rparr>)
      \<and> length vertices = 3267 \<and> length indexes = 2176 \<and> below 1088 indexes"
proof -
  have c: "c_div 256 2 = 128" "c_div 256 8 = 32"
    by (simp_all add: c_div_def)
  have s: "steps 256 8 = 33"
    by (simp add: steps_def)
  from vertices_rows_result [of 8 256 256 "c_div 256 2" "[]"]
  obtain vertices where v: "vertices_rows 256 256 8 (c_div 256 2) [] = Some vertices"
      "length vertices = 3267"
    by (auto simp: c s)
  define indexes where "indexes = indexes_rows 32 32 0 []"
  have li: "length indexes = 2176"
    by (simp add: indexes_def indexes_rows_length)
  have "below 1088 (indexes_rows 32 32 0 [])"
    by (rule indexes_rows_below) (simp_all add: below_def)
  then have b: "below 1088 indexes"
    by (simp add: indexes_def)
  have "generateVerticles 256 256 8 w
      = Some (Return (),
          w\<lparr>stdout := stdout w @ [Printf ''Vertexes count %d \<newline>'' [Arg_int 1089],
                                   Printf ''Indexes count %d \<newline>'' [Arg_int 2176]],
            vertex_memory := vertices, index_memory := indexes, indexes_count := 2176\<rparr>)"
    using v li assms
    by (simp add: generateVerticles_def c fits_def bind_def ret_def printf_def
        indexes_def [symmetric] c_div_def)
  with v(2) li b show ?thesis
    by blast
qed

lemma generate_colors_256:
  assumes "mapped_size w = 1048576"
  shows "\<exists>color. generate_colors 256 256 8 w
      = (Return (), w\<lparr>stdout := stdout w @ [Printf ''Colors count %d \<newline>'' [Arg_int 65536]],
                      color_memory := color\<rparr>)"
proof -
  have "length (colors_rows 256 256 0 []) = 262144"
    by (simp add: colors_rows_length)
  with assms show ?thesis
    by (intro exI [of _ "colors_rows 256 256 0 []"])
      (simp add: generate_colors_def Let_def fits_def printf_def c_div_def)
qed

text \<open>
  C10. With width 256, height 256 and step 8, and the buffers mapped by
  \<^verbatim>\<open>setup_buffers(256, 256)\<close>, \<^verbatim>\<open>generateVerticles\<close> returns, having written
  \<open>(256/8 + 1) * (256/8 + 1) = 1089\<close> vertices of three floats each, set
  \<^verbatim>\<open>indexes_count\<close> to \<open>(256/8) * (2 * (256/8 + 1) + 2) = 2176\<close> and written that many
  indexes, each of them below 1089.
\<close>

theorem generateVerticles_counts:
  assumes "mapped_size w = nat (256 * 256 * 4 * 4)"
  shows "\<exists>w'. generateVerticles 256 256 8 w = Some (Return (), w')
           \<and> length (vertex_memory w') = 3 * nat ((c_div 256 8 + 1) * (c_div 256 8 + 1))
           \<and> (c_div 256 8 + 1) * (c_div 256 8 + 1) = 1089
           \<and> indexes_count w' = c_div 256 8 * (2 * (c_div 256 8 + 1) + 2)
           \<and> indexes_count w' = 2176
           \<and> int (length (index_memory w')) = indexes_count w'
           \<and> (\<forall>v\<in>set (index_memory w'). unat v < 1089)"
proof -
  have "mapped_size w = 1048576"
    using assms by simp
  from generateVerticles_256 [OF this]
  obtain vertices indexes w' where g: "generateVerticles 256 256 8 w = Some (Return (), w')"
      and w': "vertex_memory w' = vertices" "index_memory w' = indexes" "indexes_count w' = 2176"
      and l: "length vertices = 3267" "length indexes = 2176" and b: "below 1088 indexes"
    by force
  have c: "c_div 256 8 = 32"
    by (simp add: c_div_def)
  have "unat v < 1089" if "v \<in> set indexes" for v
  proof -
    have "(1088 :: int) < 2 ^ 32"
      by simp
    from below_unat [OF b this that] show ?thesis
      by linarith
  qed
  with g w' l show ?thesis
    by (simp add: c)
qed

text \<open>
  The mapped size after \<^verbatim>\<open>setup_buffers(256, 256)\<close> is \<open>256 * 256 * 4 * 4\<close> bytes, and
  from there 3267 floats and 2176 indexes are written.
\<close>

theorem generateVerticles_counts_witness:
  "mapped_size buffers_ready = nat (256 * 256 * 4 * 4)
   \<and> (\<exists>w'. generateVerticles 256 256 8 buffers_ready = Some (Return (), w')
         \<and> length (vertex_memory w') = 3267 \<and> indexes_count w' = 2176)"
proof -
  have h: "mapped_size buffers_ready = nat (256 * 256 * 4 * 4)"
    by (simp add: buffers_ready_def)
  from generateVerticles_counts [OF h] h show ?thesis
    by (auto simp: c_div_def)
qed

section \<open>The exit code of map_and_draw_coherent\<close>

lemma ret_Return_iff: "ret x w = (Return y, w') \<longleftrightarrow> x = y \<and> w = w'"
  by (auto simp: ret_def)

lemma build_programm_draw_keeps:
  assumes "build_programm_draw env w = (Return x, w')"
  shows "mapped_size w' = mapped_size w \<and> polls w' = polls w"
  using assms
  by (auto simp: build_programm_draw_def bind_Return_iff ret_Return_iff printf_def
      split: if_splits)

lemma reqire_extension_keeps:
  assumes "reqire_extension env extension gl_version w = (Return x, w')"
  shows "w' = w"
  using assms
  by (auto simp: reqire_extension_def bind_def fprintf_stderr_def exit_def ret_def
      split: if_splits)

lemma check_error_draw_keeps:
  assumes "check_error_draw env w = (Return x, w')"
  shows "mapped_size w' = mapped_size w \<and> polls w' = polls w"
  using assms
  by (auto simp: check_error_draw_def Let_def exit_def ret_def split: if_splits)

lemma setup_buffers_size:
  assumes "setup_buffers env 256 256 w = (Return r, w')"
  shows "mapped_size w' = 1048576 \<and> polls w' = polls w"
proof -
  from assms obtain w1 w2 w3 w4 w5 w6 w7 x1 x2 x3 x4 x7
    where r: "reqire_extension env ''GL_ARB_uniform_buffer_object'' (GLAD_GL_VERSION_4_4 env) w
          = (Return x1, w1)"
      "reqire_extension env ''GL_ARB_buffer_storage'' (GLAD_GL_VERSION_4_4 env) w1 = (Return x2, w2)"
      "reqire_extension env ''GL_ARB_map_buffer_range'' (GLAD_GL_VERSION_4_4 env) w2 = (Return x3, w3)"
      "reqire_extension env ''GL_VMWX_map_buffer_debug'' (GLAD_GL_VERSION_4_4 env) w3 = (Return x4, w4)"
    and w5: "w5 = w4\<lparr>mapped_size := nat (256 * 256 * 4 * 4)\<rparr>"
    and w6: "(if glGenBuffers env = 0 then (Fault Assertion_failed, w5) else ret () w5) = (Return (), w6)"
    and c1: "check_error_draw env w6 = (Return x7, w7)"
    and last: "(if \<not> framebuffer_complete env then ret False
               else bind (check_error_draw env) (\<lambda>_. ret True)) w7 = (Return r, w')"
    unfolding setup_buffers_def bind_Return_iff ret_Return_iff by auto
  have "w4 = w"
    using r reqire_extension_keeps by metis
  moreover have "w6 = w5"
    using w6 by (auto simp: ret_def split: if_splits)
  moreover have "mapped_size w' = mapped_size w7 \<and> polls w' = polls w7"
    using last check_error_draw_keeps
    by (auto simp: bind_Return_iff ret_Return_iff split: if_splits)
  ultimately show ?thesis
    using w5 check_error_draw_keeps [OF c1] by simp
qed

text \<open>
  When the window is closed at some poll, the draw loop ends, and it changes neither the
  buffers nor what was printed; when it draws at least one frame, the window holds what
  the draw call produces from the buffers.
\<close>

lemma draw_result:
  assumes "glfwWindowShouldClose env n" and "polls w \<le> n"
  shows "\<exists>w'. draw env w = Some w' \<and> indexes_count w' = indexes_count w
           \<and> vertex_memory w' = vertex_memory w \<and> index_memory w' = index_memory w
           \<and> color_memory w' = color_memory w \<and> stdout w' = stdout w \<and> stderr w' = stderr w
           \<and> (\<not> glfwWindowShouldClose env (polls w) \<longrightarrow>
                window_pixels w' = glDrawElements env (vertex_memory w) (index_memory w)
                                     (indexes_count w) (color_memory w))"
  using assms(2)
proof (induction "n - polls w" arbitrary: w rule: less_induct)
  case less
  show ?case
  proof (cases "glfwWindowShouldClose env (polls w)")
    case True
    then show ?thesis
      by (subst draw.simps) simp
  next
    case False
    with assms(1) less.prems have lt: "polls w < n"
      by (metis le_neq_implies_less)
    define w1 where "w1 = w\<lparr>polls := Suc (polls w),
        window_pixels := glDrawElements env (vertex_memory w) (index_memory w)
                           (indexes_count w) (color_memory w)\<rparr>"
    have "n - polls w1 < n - polls w" "polls w1 \<le> n"
      using lt by (simp_all add: w1_def)
    from less.hyps [OF this] obtain w' where w': "draw env w1 = Some w'"
        "indexes_count w' = indexes_count w1" "vertex_memory w' = vertex_memory w1"
        "index_memory w' = index_memory w1" "color_memory w' = color_memory w1"
        "stdout w' = stdout w1" "stderr w' = stderr w1"
        "\<not> glfwWindowShouldClose env (polls w1) \<longrightarrow>
           window_pixels w' = glDrawElements env (vertex_memory w1) (index_memory w1)
                                (indexes_count w1) (color_memory w1)"
      by blast
    have "window_pixels w' = glDrawElements env (vertex_memory w) (index_memory w)
                                (indexes_count w) (color_memory w)"
    proof (cases "glfwWindowShouldClose env (polls w1)")
      case True
      then have "draw env w1 = Some (w1\<lparr>polls := Suc (polls w1)\<rparr>)"
        by (subst draw.simps) simp
      with w'(1) show ?thesis
        by (auto simp: w1_def)
    next
      case False
      with w'(8) show ?thesis
        by (simp add: w1_def)
    qed
    with False w' show ?thesis
      by (subst draw.simps) (simp add: w1_def)
  qed
qed

lemma main_draw_result:
  assumes window: "glfwCreateWindow env" and loader: "gladLoadGLLoader env"
    and succeeds: "fst (bind (build_programm_draw env) (\<lambda>_. setup_buffers env 256 256)
                  (snd (printf ''getSystemPageSize: %u\<newline>''
                          [Arg_uint (getSystemPageSize env)] draw_start))) = Return True"
    and closes: "glfwWindowShouldClose env n"
  shows "\<exists>w. main_draw env argv = Some (Return 0, w) \<and> indexes_count w = 2176
           \<and> length (vertex_memory w) = 3267 \<and> (\<forall>v\<in>set (index_memory w). unat v < 1089)
           \<and> (\<not> glfwWindowShouldClose env 0 \<longrightarrow>
                window_pixels w = glDrawElements env (vertex_memory w) (index_memory w)
                                    (indexes_count w) (color_memory w))"
proof -
  define w0 where "w0 = snd (printf ''getSystemPageSize: %u\<newline>''
      [Arg_uint (getSystemPageSize env)] draw_start)"
  have p: "printf ''getSystemPageSize: %u\<newline>'' [Arg_uint (getSystemPageSize env)] draw_start
      = (Return (), w0)"
    by (simp add: w0_def printf_def)
  have polls0: "polls w0 = 0"
    by (simp add: w0_def printf_def draw_start_def)
  from succeeds obtain w1 where s: "bind (build_programm_draw env) (\<lambda>_. setup_buffers env 256 256) w0
      = (Return True, w1)"
    unfolding w0_def [symmetric] by (metis prod.collapse)
  then obtain x w' where bs: "build_programm_draw env w0 = (Return x, w')"
      "setup_buffers env 256 256 w' = (Return True, w1)"
    unfolding bind_Return_iff by blast
  have w1: "mapped_size w1 = 1048576" "polls w1 = 0"
    using build_programm_draw_keeps [OF bs(1)] setup_buffers_size [OF bs(2)] polls0 by simp_all
  from generateVerticles_256 [OF w1(1)]
  obtain vertices indexes w2 where g: "generateVerticles 256 256 8 w1 = Some (Return (), w2)"
      and w2: "w2 = w1\<lparr>stdout := stdout w1 @ [Printf ''Vertexes count %d \<newline>'' [Arg_int 1089],
                                     Printf ''Indexes count %d \<newline>'' [Arg_int 2176]],
              vertex_memory := vertices, index_memory := indexes, indexes_count := 2176\<rparr>"
      and l: "length vertices = 3267" and b: "below 1088 indexes"
    by blast
  have "mapped_size w2 = 1048576"
    using w1(1) by (simp add: w2)
  from generate_colors_256 [OF this]
  obtain color where c: "generate_colors 256 256 8 w2
      = (Return (), w2\<lparr>stdout := stdout w2 @ [Printf ''Colors count %d \<newline>'' [Arg_int 65536]],
                       color_memory := color\<rparr>)"
    by blast
  define w3 where "w3 = w2\<lparr>stdout := stdout w2 @ [Printf ''Colors count %d \<newline>'' [Arg_int 65536]],
      color_memory := color\<rparr>"
  have polls3: "polls w3 = 0"
    by (simp add: w3_def w2 w1(2))
  then have "polls w3 \<le> n"
    by simp
  from draw_result [OF closes this] obtain w4 where d: "draw env w3 = Some w4"
      and k: "indexes_count w4 = indexes_count w3" "vertex_memory w4 = vertex_memory w3"
        "index_memory w4 = index_memory w3" "color_memory w4 = color_memory w3"
      and f: "\<not> glfwWindowShouldClose env (polls w3) \<longrightarrow>
                window_pixels w4 = glDrawElements env (vertex_memory w3) (index_memory w3)
                                     (indexes_count w3) (color_memory w3)"
    by blast
  have m: "main_draw env argv = Some (Return 0, w4)"
    using window loader p s g c d
    by (simp add: main_draw_def Let_def w3_def [symmetric])
  have "unat v < 1089" if "v \<in> set indexes" for v
  proof -
    have "(1088 :: int) < 2 ^ 32"
      by simp
    from below_unat [OF b this that] show ?thesis
      by linarith
  qed
  moreover from f k have "\<not> glfwWindowShouldClose env 0 \<longrightarrow>
      window_pixels w4 = glDrawElements env (vertex_memory w4) (index_memory w4)
                           (indexes_count w4) (color_memory w4)"
    by (simp add: polls3)
  ultimately show ?thesis
    using m k l by (simp add: w3_def w2)
qed

lemma draw_env_pixels_checks:
  "check_error_draw (env\<lparr>glDrawElements := pixels\<rparr>) = check_error_draw env"
  "reqire_extension (env\<lparr>glDrawElements := pixels\<rparr>) = reqire_extension env"
  "build_programm_draw (env\<lparr>glDrawElements := pixels\<rparr>) = build_programm_draw env"
  by (simp_all add: build_programm_draw_def reqire_extension_def check_error_draw_def fun_eq_iff Let_def)

lemma draw_env_pixels:
  "build_programm_draw (env\<lparr>glDrawElements := pixels\<rparr>) = build_programm_draw env"
  "setup_buffers (env\<lparr>glDrawElements := pixels\<rparr>) = setup_buffers env"
  by (simp_all add: draw_env_pixels_checks setup_buffers_def fun_eq_iff)

text \<open>
  C7. When the window and the loader are there, the program is built and
  \<^verbatim>\<open>setup_buffers\<close> returns true, and the window is closed at some poll, \<^verbatim>\<open>main\<close> of
  map_and_draw_coherent returns 0; and it returns 0 whatever pixels the draw calls
  produce: when at least one frame is drawn, the window holds at the end the pixels that
  the last draw call produced from the buffers, and the exit code is 0 all the same.
\<close>

theorem main_draw_no_pixel_assertions:
  assumes window: "glfwCreateWindow env" and loader: "gladLoadGLLoader env"
    and succeeds: "fst (bind (build_programm_draw env) (\<lambda>_. setup_buffers env 256 256)
                  (snd (printf ''getSystemPageSize: %u\<newline>''
                          [Arg_uint (getSystemPageSize env)] draw_start))) = Return True"
    and closes: "glfwWindowShouldClose env n"
  shows "(\<exists>w. main_draw env argv = Some (Return 0, w))
       \<and> (\<forall>pixels. \<exists>w. main_draw (env\<lparr>glDrawElements := pixels\<rparr>) argv = Some (Return 0, w)
            \<and> (\<not> glfwWindowShouldClose env 0 \<longrightarrow>
                 window_pixels w = pixels (vertex_memory w) (index_memory w)
                                     (indexes_count w) (color_memory w)))"
proof (intro conjI allI)
  from main_draw_result [OF assms] show "\<exists>w. main_draw env argv = Some (Return 0, w)"
    by blast
  fix pixels
  let ?env = "env\<lparr>glDrawElements := pixels\<rparr>"
  have "\<exists>w. main_draw ?env argv = Some (Return 0, w)
      \<and> indexes_count w = 2176 \<and> length (vertex_memory w) = 3267
      \<and> (\<forall>v\<in>set (index_memory w). unat v < 1089)
      \<and> (\<not> glfwWindowShouldClose ?env 0 \<longrightarrow>
            window_pixels w = glDrawElements ?env (vertex_memory w) (index_memory w)
                                (indexes_count w) (color_memory w))"
    using assms by (intro main_draw_result [where n = n]) (simp_all add: draw_env_pixels)
  then show "\<exists>w. main_draw ?env argv = Some (Return 0, w)
      \<and> (\<not> glfwWindowShouldClose env 0 \<longrightarrow>
            window_pixels w = pixels (vertex_memory w) (index_memory w)
                                (indexes_count w) (color_memory w))"
    by auto
qed

text \<open>
  In the environment \<open>closes_after_a_frame\<close> one frame is drawn. When the draw call fills
  the window with red the run ends with a red window and returns 0; when it fills the
  window with white the run ends with a white window and returns 0.
\<close>

theorem main_draw_no_pixel_assertions_witness:
  "glfwCreateWindow closes_after_a_frame \<and> gladLoadGLLoader closes_after_a_frame
   \<and> \<not> glfwWindowShouldClose closes_after_a_frame 0
   \<and> glfwWindowShouldClose closes_after_a_frame 1
   \<and> (\<exists>w. main_draw (closes_after_a_frame\<lparr>glDrawElements := (\<lambda>_ _ _ _ _. 0xFF0000FF)\<rparr>) []
            = Some (Return 0, w) \<and> window_pixels w = (\<lambda>_. 0xFF0000FF))
   \<and> (\<exists>w. main_draw (closes_after_a_frame\<lparr>glDrawElements := (\<lambda>_ _ _ _ _. 0xFFFFFFFF)\<rparr>) []
            = Some (Return 0, w) \<and> window_pixels w = (\<lambda>_. 0xFFFFFFFF))"
proof -
  have h: "glfwCreateWindow closes_after_a_frame" "gladLoadGLLoader closes_after_a_frame"
    "fst (bind (build_programm_draw closes_after_a_frame)
            (\<lambda>_. setup_buffers closes_after_a_frame 256 256)
            (snd (printf ''getSystemPageSize: %u\<newline>''
                    [Arg_uint (getSystemPageSize closes_after_a_frame)] draw_start))) = Return True"
    "glfwWindowShouldClose closes_after_a_frame 1"
    by (simp_all add: closes_after_a_frame_def build_programm_draw_def setup_buffers_def
        reqire_extension_def check_error_draw_def bind_def ret_def printf_def GL_NO_ERROR_def)
  have o: "\<not> glfwWindowShouldClose closes_after_a_frame 0"
    by (simp add: closes_after_a_frame_def)
  note t = main_draw_no_pixel_assertions [OF h, of "[]", THEN conjunct2, rule_format]
  from t [of "\<lambda>_ _ _ _ _. 0xFF0000FF"] t [of "\<lambda>_ _ _ _ _. 0xFFFFFFFF"] o h(1,2,4)
  show ?thesis
    by simp
qed

text \<open>
  C8. Neither \<^verbatim>\<open>main\<close> reads its arguments: in the same environment, two runs with
  different argument vectors give the same exit code and the same final world, which
  holds everything the run printed and did to the buffers.
\<close>

theorem main_ignores_argv:
  "main_fill env argv1 = main_fill env argv2 \<and> main_draw env' argv1 = main_draw env' argv2"
  by (simp add: main_fill_def main_draw_def)

end
